theory Spec2Isabelle
  imports Complex_Main "HOL-Library.Multiset"
begin

section \<open>Glob patterns and access control (glob.ts)\<close>

text \<open>
  Method paths and patterns are JavaScript strings, modelled as \<open>string\<close>.
  \<open>split_on CHR ''.''\<close> is \<open>String.prototype.split('.')\<close>: the empty string splits
  into one empty segment, and a leading, trailing or doubled dot gives an empty segment.
\<close>

fun split_on :: "char \<Rightarrow> string \<Rightarrow> string list" where
  "split_on c [] = [[]]"
| "split_on c (x # xs) =
     (if x = c then [] # split_on c xs
      else (case split_on c xs of [] \<Rightarrow> [[x]] | w # ws \<Rightarrow> (x # w) # ws))"

text \<open>
  \<open>patternToRegex\<close> builds the source text of a regular expression and hands it to
  \<open>new RegExp\<close>. The model keeps the regular expression in parsed form: a sequence of
  items, each an escaped literal text (\<open>escapeRegex(part)\<close>, which matches exactly the
  characters of \<open>part\<close>), the item \<open>.+\<close> or the item \<open>[^.]+\<close>. The whole sequence is
  anchored by \<open>^\<close> and \<open>$\<close>. Without the \<open>s\<close> flag the dot of a JavaScript regular
  expression matches every character except a line terminator.
\<close>

datatype rx = Lit string | AnyPlus | NotDotPlus

definition line_terminator :: "char \<Rightarrow> bool" where
  "line_terminator c = (c = CHR 0x0A \<or> c = CHR 0x0D)"

definition part_rx :: "string \<Rightarrow> rx" where
  "part_rx part =
     (if part = ''**'' then AnyPlus
      else if part = ''*'' then NotDotPlus
      else Lit part)"

text \<open>\<open>regexParts.join('\\.')\<close>: an escaped dot between any two consecutive parts.\<close>

fun join_rx :: "rx list \<Rightarrow> rx list" where
  "join_rx [] = []"
| "join_rx [r] = [r]"
| "join_rx (r # r' # rs) = r # Lit ''.'' # join_rx (r' # rs)"

definition patternToRegex :: "string \<Rightarrow> rx list" where
  "patternToRegex pattern = join_rx (map part_rx (split_on CHR ''.'' pattern))"

text \<open>
  \<open>rx_test r s\<close> is \<open>/^r$/.test(s)\<close>: the string is cut into consecutive pieces, one
  for each item. \<open>.+\<close> takes one or more characters none of which is a line terminator,
  \<open>[^.]+\<close> takes one or more characters none of which is a dot.
\<close>

fun rx_test :: "rx list \<Rightarrow> string \<Rightarrow> bool" where
  "rx_test [] s = (s = [])"
| "rx_test (Lit l # rs) s = (take (length l) s = l \<and> rx_test rs (drop (length l) s))"
| "rx_test (AnyPlus # rs) s =
     list_ex (\<lambda>n. list_all (\<lambda>c. \<not> line_terminator c) (take n s) \<and> rx_test rs (drop n s))
       [1 ..< Suc (length s)]"
| "rx_test (NotDotPlus # rs) s =
     list_ex (\<lambda>n. list_all (\<lambda>c. c \<noteq> CHR ''.'') (take n s) \<and> rx_test rs (drop n s))
       [1 ..< Suc (length s)]"

record MatchResult =
  isMatch :: bool

definition matchPattern :: "string \<Rightarrow> string \<Rightarrow> MatchResult" where
  "matchPattern methodPath pattern = \<lparr>isMatch = rx_test (patternToRegex pattern) methodPath\<rparr>"

definition matchesAnyPattern :: "string \<Rightarrow> string list \<Rightarrow> bool" where
  "matchesAnyPattern methodPath patterns =
     list_ex (\<lambda>pattern. isMatch (matchPattern methodPath pattern)) patterns"

record AccessCheckResult =
  isAllowed :: bool
  reason :: "string option"

record AccessCheckOptions =
  ac_methodPath :: string
  ac_allowlist :: "string list option"
  ac_blocklist :: "string list option"

text \<open>
  An array is truthy even when empty, so \<open>blocklist && ...\<close> tests only that the list
  is present.
\<close>

definition checkAccess :: "AccessCheckOptions \<Rightarrow> AccessCheckResult" where
  \<open>checkAccess options =
     (let methodPath = ac_methodPath options in
      if (case ac_blocklist options of None \<Rightarrow> False
          | Some blocklist \<Rightarrow> matchesAnyPattern methodPath blocklist)
      then \<lparr>isAllowed = False, reason = Some (''Method "'' @ methodPath @ ''" is blocked'')\<rparr>
      else if (case ac_allowlist options of None \<Rightarrow> False
               | Some allowlist \<Rightarrow> \<not> matchesAnyPattern methodPath allowlist)
      then \<lparr>isAllowed = False, reason = Some (''Method "'' @ methodPath @ ''" is not allowed'')\<rparr>
      else \<lparr>isAllowed = True, reason = None\<rparr>)\<close>

text \<open>
  The glob grammar as the documentation words it, on dot-separated segments: a literal
  segment matches that segment, \<open>*\<close> matches one segment of non-empty content without a
  dot, \<open>**\<close> matches one or more consecutive segments.
\<close>

fun glob_matches :: "string list \<Rightarrow> string list \<Rightarrow> bool" where
  "glob_matches [] [] = True"
| "glob_matches [] (s # ss) = False"
| "glob_matches (p # ps) [] = False"
| "glob_matches (p # ps) (s # ss) =
     (if p = ''**'' then glob_matches ps ss \<or> glob_matches (p # ps) ss
      else if p = ''*'' then s \<noteq> [] \<and> CHR ''.'' \<notin> set s \<and> glob_matches ps ss
      else p = s \<and> glob_matches ps ss)"


section \<open>JavaScript numbers\<close>

text \<open>
  The rate limiter computes with JavaScript numbers and writes \<open>Infinity\<close> itself, so
  the model has the special values of IEEE 754 arithmetic: both infinities and NaN.
  Finite values are exact reals: rounding is left out, signed zeros are one zero.
  NaN absorbs every operation and every comparison with NaN is false;
  \<open>0 * Infinity\<close> and \<open>Infinity - Infinity\<close> are NaN.
\<close>

datatype jsnum = Fin real | PInf | NInf | NaN

definition sgn_inf :: "real \<Rightarrow> jsnum" where
  "sgn_inf r = (if r = 0 then NaN else if 0 < r then PInf else NInf)"

fun jneg :: "jsnum \<Rightarrow> jsnum" where
  "jneg (Fin a) = Fin (- a)"
| "jneg PInf = NInf"
| "jneg NInf = PInf"
| "jneg NaN = NaN"

fun jadd :: "jsnum \<Rightarrow> jsnum \<Rightarrow> jsnum" where
  "jadd NaN y = NaN"
| "jadd x NaN = NaN"
| "jadd (Fin a) (Fin b) = Fin (a + b)"
| "jadd PInf NInf = NaN"
| "jadd NInf PInf = NaN"
| "jadd PInf y = PInf"
| "jadd x PInf = PInf"
| "jadd NInf y = NInf"
| "jadd x NInf = NInf"

definition jsub :: "jsnum \<Rightarrow> jsnum \<Rightarrow> jsnum" where
  "jsub x y = jadd x (jneg y)"

fun jmul :: "jsnum \<Rightarrow> jsnum \<Rightarrow> jsnum" where
  "jmul NaN y = NaN"
| "jmul x NaN = NaN"
| "jmul (Fin a) (Fin b) = Fin (a * b)"
| "jmul (Fin a) PInf = sgn_inf a"
| "jmul (Fin a) NInf = sgn_inf (- a)"
| "jmul PInf (Fin b) = sgn_inf b"
| "jmul NInf (Fin b) = sgn_inf (- b)"
| "jmul PInf PInf = PInf"
| "jmul NInf NInf = PInf"
| "jmul PInf NInf = NInf"
| "jmul NInf PInf = NInf"

fun jdiv :: "jsnum \<Rightarrow> jsnum \<Rightarrow> jsnum" where
  "jdiv NaN y = NaN"
| "jdiv x NaN = NaN"
| "jdiv (Fin a) (Fin b) = (if b = 0 then sgn_inf a else Fin (a / b))"
| "jdiv (Fin a) y = Fin 0"
| "jdiv PInf (Fin b) = (if 0 \<le> b then PInf else NInf)"
| "jdiv NInf (Fin b) = (if 0 \<le> b then NInf else PInf)"
| "jdiv x y = NaN"

text \<open>\<open>jle x y\<close> is the comparison \<open>x <= y\<close> (and \<open>y >= x\<close>).\<close>

fun jle :: "jsnum \<Rightarrow> jsnum \<Rightarrow> bool" where
  "jle NaN y = False"
| "jle x NaN = False"
| "jle (Fin a) (Fin b) = (a \<le> b)"
| "jle NInf y = True"
| "jle x PInf = True"
| "jle x y = False"

text \<open>\<open>Math.min\<close>, \<open>Math.max\<close> and \<open>Math.ceil\<close>.\<close>

definition jmin :: "jsnum \<Rightarrow> jsnum \<Rightarrow> jsnum" where
  "jmin x y = (if x = NaN \<or> y = NaN then NaN else if jle x y then x else y)"

definition jmax :: "jsnum \<Rightarrow> jsnum \<Rightarrow> jsnum" where
  "jmax x y = (if x = NaN \<or> y = NaN then NaN else if jle x y then y else x)"

fun jceil :: "jsnum \<Rightarrow> jsnum" where
  "jceil (Fin a) = Fin (of_int \<lceil>a\<rceil>)"
| "jceil x = x"

text \<open>A number is truthy unless it is zero or NaN.\<close>

definition truthy :: "jsnum \<Rightarrow> bool" where
  "truthy x = (x \<noteq> Fin 0 \<and> x \<noteq> NaN)"

section \<open>Token-bucket rate limiter (rate-limiter.ts)\<close>

text \<open>
  \<open>Date.now()\<close> is an integer number of milliseconds. Every function that reads the
  clock takes the reading as the argument \<open>now\<close>; one synchronous call of
  \<open>tryAcquire\<close> sees one reading.
\<close>

record RateLimitConfig =
  cfg_requestsPerSecond :: "jsnum option"
  cfg_requestsPerMinute :: "jsnum option"
  cfg_concurrency :: "jsnum option"

text \<open>
  \<open>RateLimitConfig | PerMethodRateLimitConfig\<close>: \<open>isPerMethodConfig\<close> tells the two
  apart by the presence of the key \<open>default\<close> or \<open>perMethod\<close>. A missing \<open>perMethod\<close>
  is the empty table.
\<close>

datatype RateLimitSetting =
    FlatConfig RateLimitConfig
  | PerMethodConfig "RateLimitConfig option" "string \<Rightarrow> RateLimitConfig option"

record TokenBucket =
  tokens :: jsnum
  lastRefill :: int
  tokensPerMs :: jsnum
  maxTokens :: jsnum

record RateLimiterState =
  buckets :: "string \<Rightarrow> TokenBucket option"
  concurrentCount :: "string \<Rightarrow> nat option"
  rl_config :: RateLimitSetting

record AcquireResult =
  canProceed :: bool
  delayMs :: jsnum

fun isPerMethodConfig :: "RateLimitSetting \<Rightarrow> bool" where
  "isPerMethodConfig (FlatConfig c) = False"
| "isPerMethodConfig (PerMethodConfig d pm) = True"

fun getConfigForMethod :: "RateLimitSetting \<Rightarrow> string \<Rightarrow> RateLimitConfig option" where
  "getConfigForMethod (FlatConfig c) methodPath = Some c"
| "getConfigForMethod (PerMethodConfig d pm) methodPath =
     (case pm methodPath of Some c \<Rightarrow> Some c | None \<Rightarrow> d)"

definition getRequestsPerSecond :: "RateLimitConfig \<Rightarrow> jsnum" where
  "getRequestsPerSecond c =
     (let perMinute =
            (case cfg_requestsPerMinute c of
               None \<Rightarrow> PInf
             | Some m \<Rightarrow> if truthy m then jdiv m (Fin 60) else PInf)
      in case cfg_requestsPerSecond c of
           None \<Rightarrow> perMinute
         | Some r \<Rightarrow> if truthy r then r else perMinute)"

definition createBucket :: "RateLimitConfig \<Rightarrow> int \<Rightarrow> TokenBucket" where
  "createBucket c now =
     (let rps = getRequestsPerSecond c;
          perMs = jdiv rps (Fin 1000);
          cap = jmax (Fin 1) (jceil rps)
      in \<lparr>tokens = cap, lastRefill = now, tokensPerMs = perMs, maxTokens = cap\<rparr>)"

definition refillBucket :: "TokenBucket \<Rightarrow> int \<Rightarrow> TokenBucket" where
  "refillBucket bucket now =
     (let elapsed = Fin (of_int (now - lastRefill bucket));
          newTokens = jmul elapsed (tokensPerMs bucket)
      in bucket\<lparr>tokens := jmin (maxTokens bucket) (jadd (tokens bucket) newTokens),
                lastRefill := now\<rparr>)"

definition createRateLimiter :: "RateLimitSetting \<Rightarrow> RateLimiterState" where
  "createRateLimiter c = \<lparr>buckets = Map.empty, concurrentCount = Map.empty, rl_config = c\<rparr>"

text \<open>
  \<open>getBucket\<close> returns a reference to a bucket object, which \<open>tryAcquire\<close> then
  mutates. When the method has a configuration the object is the one stored in
  \<open>buckets\<close> (created and stored on first use); when it has none, the object is a fresh
  bucket of infinite rate that is never stored. \<open>putBucket\<close> writes a mutated bucket
  back where the reference points: into the table in the first case, nowhere in the
  second.
\<close>

definition getBucket :: "RateLimiterState \<Rightarrow> string \<Rightarrow> int \<Rightarrow> TokenBucket \<times> RateLimiterState" where
  "getBucket state methodPath now =
     (case getConfigForMethod (rl_config state) methodPath of
        None \<Rightarrow>
          (createBucket \<lparr>cfg_requestsPerSecond = Some PInf, cfg_requestsPerMinute = None,
                         cfg_concurrency = None\<rparr> now, state)
      | Some methodConfig \<Rightarrow>
          (case buckets state methodPath of
             Some bucket \<Rightarrow> (bucket, state)
           | None \<Rightarrow>
               (let bucket = createBucket methodConfig now
                in (bucket, state\<lparr>buckets := (buckets state)(methodPath \<mapsto> bucket)\<rparr>))))"

definition putBucket :: "RateLimiterState \<Rightarrow> string \<Rightarrow> TokenBucket \<Rightarrow> RateLimiterState" where
  "putBucket state methodPath bucket =
     (case getConfigForMethod (rl_config state) methodPath of
        None \<Rightarrow> state
      | Some methodConfig \<Rightarrow> state\<lparr>buckets := (buckets state)(methodPath \<mapsto> bucket)\<rparr>)"

definition currentCount :: "RateLimiterState \<Rightarrow> string \<Rightarrow> nat" where
  "currentCount state methodPath =
     (case concurrentCount state methodPath of None \<Rightarrow> 0 | Some n \<Rightarrow> n)"

definition incrementConcurrent :: "RateLimiterState \<Rightarrow> string \<Rightarrow> RateLimiterState" where
  "incrementConcurrent state methodPath =
     state\<lparr>concurrentCount :=
       (concurrentCount state)(methodPath \<mapsto> currentCount state methodPath + 1)\<rparr>"

text \<open>\<open>Math.max(0, current - 1)\<close> is the truncating subtraction of \<open>nat\<close>.\<close>

definition decrementConcurrent :: "RateLimiterState \<Rightarrow> string \<Rightarrow> RateLimiterState" where
  "decrementConcurrent state methodPath =
     state\<lparr>concurrentCount :=
       (concurrentCount state)(methodPath \<mapsto> currentCount state methodPath - 1)\<rparr>"

text \<open>
  \<open>concurrencyReached\<close> is the guard
  \<open>if (methodConfig?.concurrency) { if (current >= methodConfig.concurrency) ... }\<close>:
  the cap counts only when it is truthy.
\<close>

definition concurrencyReached :: "RateLimiterState \<Rightarrow> string \<Rightarrow> bool" where
  "concurrencyReached state methodPath =
     (case getConfigForMethod (rl_config state) methodPath of
        None \<Rightarrow> False
      | Some methodConfig \<Rightarrow>
          (case cfg_concurrency methodConfig of
             None \<Rightarrow> False
           | Some cap \<Rightarrow>
               truthy cap \<and> jle cap (Fin (real (currentCount state methodPath)))))"

definition tryAcquire :: "RateLimiterState \<Rightarrow> string \<Rightarrow> int \<Rightarrow> AcquireResult \<times> RateLimiterState" where
  "tryAcquire state methodPath now =
     (if concurrencyReached state methodPath
      then (\<lparr>canProceed = False, delayMs = Fin 50\<rparr>, state)
      else
        (let (bucket0, state1) = getBucket state methodPath now;
             bucket = refillBucket bucket0 now
         in if jle (Fin 1) (tokens bucket)
            then (\<lparr>canProceed = True, delayMs = Fin 0\<rparr>,
                  incrementConcurrent
                    (putBucket state1 methodPath (bucket\<lparr>tokens := jsub (tokens bucket) (Fin 1)\<rparr>))
                    methodPath)
            else
              (let tokensNeeded = jsub (Fin 1) (tokens bucket);
                   delay = jceil (jdiv tokensNeeded (tokensPerMs bucket))
               in (\<lparr>canProceed = False, delayMs = delay\<rparr>,
                   putBucket state1 methodPath bucket))))"


section \<open>Priority queue (queue.ts)\<close>

datatype Priority = Critical | High | Normal | Low

fun PRIORITY_ORDER :: "Priority \<Rightarrow> int" where
  "PRIORITY_ORDER Critical = 0"
| "PRIORITY_ORDER High = 1"
| "PRIORITY_ORDER Normal = 2"
| "PRIORITY_ORDER Low = 3"

record QueueConfig =
  qc_concurrency :: "int option"
  qc_timeout :: "int option"
  qc_maxSize :: "int option"

text \<open>
  A queued request. \<open>execute\<close> stands for the closure \<open>() => executeCore(...)\<close>: it
  holds what the closure captured, of a type \<open>'c\<close> that the queue never inspects. The
  \<open>resolve\<close> and \<open>reject\<close> handles of the caller's promise are identified by the
  request's id. \<open>onQueueChange\<close> is never assigned anywhere and is left out.
\<close>

record 'c QueuedRequest =
  rq_id :: nat
  rq_priority :: Priority
  execute :: 'c
  rq_methodPath :: string

record 'c QueueState =
  queue :: "'c QueuedRequest list"
  running :: int
  paused :: bool
  nextId :: nat
  q_config :: QueueConfig

definition createQueue :: "QueueConfig \<Rightarrow> 'c QueueState" where
  "createQueue c = \<lparr>queue = [], running = 0, paused = False, nextId = 0, q_config = c\<rparr>"

definition sortByPriority :: "'c QueuedRequest \<Rightarrow> 'c QueuedRequest \<Rightarrow> int" where
  "sortByPriority a b =
     (let priorityDiff = PRIORITY_ORDER (rq_priority a) - PRIORITY_ORDER (rq_priority b)
      in if priorityDiff \<noteq> 0 then priorityDiff else int (rq_id a) - int (rq_id b))"

text \<open>
  \<open>Array.prototype.sort\<close> with a comparator is a stable sort: an element goes before
  the elements it does not compare greater than.
\<close>

fun insert_by :: "('a \<Rightarrow> 'a \<Rightarrow> int) \<Rightarrow> 'a \<Rightarrow> 'a list \<Rightarrow> 'a list" where
  "insert_by cmp x [] = [x]"
| "insert_by cmp x (y # ys) = (if cmp x y \<le> 0 then x # y # ys else y # insert_by cmp x ys)"

definition sort_by :: "('a \<Rightarrow> 'a \<Rightarrow> int) \<Rightarrow> 'a list \<Rightarrow> 'a list" where
  "sort_by cmp xs = foldr (insert_by cmp) xs []"

text \<open>\<open>state.config.concurrency ?? Infinity\<close>: no configured value is no bound.\<close>

definition belowConcurrency :: "'c QueueState \<Rightarrow> bool" where
  "belowConcurrency state =
     (case qc_concurrency (q_config state) of
        None \<Rightarrow> True
      | Some concurrency \<Rightarrow> running state < concurrency)"

definition canProcessNext :: "'c QueueState \<Rightarrow> bool" where
  "canProcessNext state =
     (if paused state then False
      else if \<not> belowConcurrency state then False
      else 0 < length (queue state))"

text \<open>
  \<open>processNext\<close> returns the new state and the request it has begun executing, if any.
  Beginning the execution (\<open>executeWithTimeout\<close>) is the caller's next action; the
  \<open>finally\<close> callback of that execution is \<open>settle\<close> below.
\<close>

definition processNext :: "'c QueueState \<Rightarrow> 'c QueueState \<times> 'c QueuedRequest option" where
  "processNext state =
     (if \<not> canProcessNext state then (state, None)
      else
        (case sort_by sortByPriority (queue state) of
           [] \<Rightarrow> (state\<lparr>queue := []\<rparr>, None)
         | request # rest \<Rightarrow>
             (state\<lparr>queue := rest, running := running state + 1\<rparr>, Some request)))"

record 'c EnqueueOptions =
  eo_methodPath :: string
  eo_priority :: Priority
  eo_execute :: 'c

text \<open>
  \<open>enqueue\<close> returns either the message of the rejection (\<open>Queue is full\<close>) or the id
  of the new request together with the request the admission step has begun, if any.
\<close>

definition queueIsFull :: "'c QueueState \<Rightarrow> bool" where
  "queueIsFull state =
     (case qc_maxSize (q_config state) of
        None \<Rightarrow> False
      | Some maxSize \<Rightarrow> maxSize \<le> int (length (queue state)))"

definition enqueue ::
  "'c QueueState \<Rightarrow> 'c EnqueueOptions \<Rightarrow> (string + nat \<times> 'c QueuedRequest option) \<times> 'c QueueState" where
  "enqueue state options =
     (if queueIsFull state then (Inl ''Queue is full'', state)
      else
        (let request = \<lparr>rq_id = nextId state, rq_priority = eo_priority options,
                         execute = eo_execute options, rq_methodPath = eo_methodPath options\<rparr>;
             state1 = state\<lparr>nextId := nextId state + 1, queue := queue state @ [request]\<rparr>;
             (state2, started) = processNext state1
         in (Inr (rq_id request, started), state2)))"

text \<open>The \<open>finally\<close> callback of a begun request: \<open>state.running--; processNext(state)\<close>.\<close>

definition settle :: "'c QueueState \<Rightarrow> 'c QueueState \<times> 'c QueuedRequest option" where
  "settle state = processNext (state\<lparr>running := running state - 1\<rparr>)"

definition pauseQueue :: "'c QueueState \<Rightarrow> 'c QueueState" where
  "pauseQueue state = state\<lparr>paused := True\<rparr>"

definition resumeQueue :: "'c QueueState \<Rightarrow> 'c QueueState \<times> 'c QueuedRequest option" where
  "resumeQueue state = processNext (state\<lparr>paused := False\<rparr>)"

text \<open>\<open>clearQueue\<close> returns the removed requests, each rejected with \<open>Queue cleared\<close>.\<close>

definition clearQueue :: "'c QueueState \<Rightarrow> 'c QueueState \<times> 'c QueuedRequest list" where
  "clearQueue state = (state\<lparr>queue := []\<rparr>, queue state)"

definition getQueueSize :: "'c QueueState \<Rightarrow> nat" where
  "getQueueSize state = length (queue state)"

definition getRunningCount :: "'c QueueState \<Rightarrow> int" where
  "getRunningCount state = running state"

text \<open>
  The property of a queue that has nothing waiting while a slot is free.
\<close>

definition noIdleSlot :: "'c QueueState \<Rightarrow> bool" where
  "noIdleSlot state = (\<not> paused state \<and> belowConcurrency state \<longrightarrow> queue state = [])"


section \<open>Hooks and plugins (plugin.ts, wrap.ts)\<close>

text \<open>
  JavaScript values, as far as the pipeline looks at them: \<open>ErrorObj m\<close> is an instance
  of \<open>Error\<close> with message \<open>m\<close>, the only values for which \<open>instanceof Error\<close> holds.
  A call of user code either returns a value or throws one.
\<close>

datatype val = Undefined | Null | Bool bool | Num int | Str string | ErrorObj string | Arr "val list"

datatype 'a completion = Returns 'a | Throws val

fun instanceofError :: "val \<Rightarrow> bool" where
  "instanceofError (ErrorObj m) = True"
| "instanceofError v = False"

text \<open>\<open>x ?? y\<close> on a value: \<open>y\<close> when \<open>x\<close> is \<open>null\<close> or \<open>undefined\<close>.\<close>

fun nullish :: "val \<Rightarrow> bool" where
  "nullish Undefined = True"
| "nullish Null = True"
| "nullish v = False"

text \<open>
  The hooks of the configuration. \<open>before\<close> returns replacement arguments or nothing.
  \<open>onError\<close> receives the method path, the error and the \<open>retry\<close> helper; since
  \<open>retry()\<close> calls the wrapped function again with the same arguments, the helper is
  represented by the completion that call has.
\<close>

record WrapHooks =
  h_before :: "(string \<Rightarrow> val list \<Rightarrow> val list option completion) option"
  h_after :: "(string \<Rightarrow> val \<Rightarrow> val completion) option"
  h_onError :: "(string \<Rightarrow> val \<Rightarrow> val completion \<Rightarrow> val completion) option"

record PluginContext =
  pc_method :: string
  pc_args :: "val list"
  pc_result :: "val option"

text \<open>
  A plugin. \<open>after\<close> and \<open>onError\<close> receive the plugin context extended by the field
  \<open>context\<close> (and \<open>error\<close>); the model passes these as further arguments.
\<close>

record Plugin =
  p_name :: string
  p_before :: "(PluginContext \<Rightarrow> val completion) option"
  p_after :: "(PluginContext \<Rightarrow> val \<Rightarrow> val completion) option"
  p_onError :: "(PluginContext \<Rightarrow> val \<Rightarrow> val \<Rightarrow> val completion) option"

record PluginExecution =
  pe_plugin :: Plugin
  pe_context :: val

text \<open>
  Every function of the pipeline returns, next to its completion, the calls of user code
  it has made, in order.
\<close>

datatype hook_call =
    CallBefore string "val list"
  | CallPluginBefore string PluginContext
  | CallMethod "val list"
  | CallPluginAfter string PluginContext val
  | CallAfter string val
  | CallPluginOnError string PluginContext val val
  | CallOnError string val

fun runBeforeHook ::
  "WrapHooks option \<Rightarrow> string \<Rightarrow> val list \<Rightarrow> val list completion \<times> hook_call list" where
  "runBeforeHook None methodPath args = (Returns args, [])"
| "runBeforeHook (Some hooks) methodPath args =
     (case h_before hooks of
        None \<Rightarrow> (Returns args, [])
      | Some hook \<Rightarrow>
          (case hook methodPath args of
             Throws e \<Rightarrow> (Throws e, [CallBefore methodPath args])
           | Returns None \<Rightarrow> (Returns args, [CallBefore methodPath args])
           | Returns (Some result) \<Rightarrow> (Returns result, [CallBefore methodPath args])))"

fun runAfterHook ::
  "WrapHooks option \<Rightarrow> string \<Rightarrow> val \<Rightarrow> val completion \<times> hook_call list" where
  "runAfterHook None methodPath result = (Returns result, [])"
| "runAfterHook (Some hooks) methodPath result =
     (case h_after hooks of
        None \<Rightarrow> (Returns result, [])
      | Some hook \<Rightarrow>
          (case hook methodPath result of
             Throws e \<Rightarrow> (Throws e, [CallAfter methodPath result])
           | Returns modified \<Rightarrow>
               (Returns (if nullish modified then result else modified),
                [CallAfter methodPath result])))"

text \<open>
  \<open>handleError\<close>: the hook runs only for an instance of \<open>Error\<close>; any other thrown
  value is thrown on. \<open>retried\<close> is the completion of \<open>fn.apply(target, args)\<close>.
\<close>

definition onErrorHook ::
  "WrapHooks option \<Rightarrow> (string \<Rightarrow> val \<Rightarrow> val completion \<Rightarrow> val completion) option" where
  "onErrorHook hooks = (case hooks of None \<Rightarrow> None | Some h \<Rightarrow> h_onError h)"

definition handleError ::
  "WrapHooks option \<Rightarrow> string \<Rightarrow> val completion \<Rightarrow> val \<Rightarrow> val completion \<times> hook_call list" where
  "handleError hooks methodPath retried error =
     (case onErrorHook hooks of
        None \<Rightarrow> (Throws error, [])
      | Some hook \<Rightarrow>
          if instanceofError error
          then (hook methodPath error retried, [CallOnError methodPath error])
          else (Throws error, []))"

fun runPluginsBefore ::
  "Plugin list \<Rightarrow> PluginContext \<Rightarrow> PluginExecution list completion \<times> hook_call list" where
  "runPluginsBefore [] ctx = (Returns [], [])"
| "runPluginsBefore (plugin # plugins) ctx =
     (case p_before plugin of
        None \<Rightarrow>
          (case runPluginsBefore plugins ctx of
             (Throws e, calls) \<Rightarrow> (Throws e, calls)
           | (Returns executions, calls) \<Rightarrow>
               (Returns (\<lparr>pe_plugin = plugin, pe_context = Undefined\<rparr> # executions), calls))
      | Some hook \<Rightarrow>
          (case hook ctx of
             Throws e \<Rightarrow> (Throws e, [CallPluginBefore (p_name plugin) ctx])
           | Returns c \<Rightarrow>
               (case runPluginsBefore plugins ctx of
                  (Throws e, calls) \<Rightarrow> (Throws e, CallPluginBefore (p_name plugin) ctx # calls)
                | (Returns executions, calls) \<Rightarrow>
                    (Returns (\<lparr>pe_plugin = plugin, pe_context = c\<rparr> # executions),
                     CallPluginBefore (p_name plugin) ctx # calls))))"

text \<open>
  The loop of \<open>runPluginsAfter\<close> over the executions already reversed, and the same for
  \<open>runPluginsOnError\<close>. A hook that throws ends the loop.
\<close>

fun afterLoop :: "PluginExecution list \<Rightarrow> PluginContext \<Rightarrow> unit completion \<times> hook_call list" where
  "afterLoop [] ctx = (Returns (), [])"
| "afterLoop (ex # reversed) ctx =
     (case p_after (pe_plugin ex) of
        None \<Rightarrow> afterLoop reversed ctx
      | Some hook \<Rightarrow>
          (case hook ctx (pe_context ex) of
             Throws e \<Rightarrow> (Throws e, [CallPluginAfter (p_name (pe_plugin ex)) ctx (pe_context ex)])
           | Returns u \<Rightarrow>
               (case afterLoop reversed ctx of
                  (r, calls) \<Rightarrow>
                    (r, CallPluginAfter (p_name (pe_plugin ex)) ctx (pe_context ex) # calls))))"

definition runPluginsAfter ::
  "PluginExecution list \<Rightarrow> PluginContext \<Rightarrow> unit completion \<times> hook_call list" where
  "runPluginsAfter executions ctx = afterLoop (rev executions) ctx"

fun onErrorLoop ::
  "PluginExecution list \<Rightarrow> PluginContext \<Rightarrow> val \<Rightarrow> unit completion \<times> hook_call list" where
  "onErrorLoop [] ctx error = (Returns (), [])"
| "onErrorLoop (ex # reversed) ctx error =
     (case p_onError (pe_plugin ex) of
        None \<Rightarrow> onErrorLoop reversed ctx error
      | Some hook \<Rightarrow>
          (case hook ctx (pe_context ex) error of
             Throws e \<Rightarrow>
               (Throws e, [CallPluginOnError (p_name (pe_plugin ex)) ctx (pe_context ex) error])
           | Returns u \<Rightarrow>
               (case onErrorLoop reversed ctx error of
                  (r, calls) \<Rightarrow>
                    (r, CallPluginOnError (p_name (pe_plugin ex)) ctx (pe_context ex) error
                        # calls))))"

definition runPluginsOnError ::
  "PluginExecution list \<Rightarrow> PluginContext \<Rightarrow> val \<Rightarrow> unit completion \<times> hook_call list" where
  "runPluginsOnError executions ctx error = onErrorLoop (rev executions) ctx error"

text \<open>
  The \<open>catch\<close> block of \<open>runMethodWithPlugins\<close>: the plugins' \<open>onError\<close> hooks run only
  for an instance of \<open>Error\<close>; a hook that throws there leaves the block with its own
  error. Then \<open>handleError\<close>.
\<close>

definition catchBlock ::
  "WrapHooks option \<Rightarrow> string \<Rightarrow> val list \<Rightarrow> val completion \<Rightarrow> PluginExecution list \<Rightarrow> val
     \<Rightarrow> val completion \<times> hook_call list" where
  "catchBlock hooks methodPath args retried executions error =
     (if instanceofError error
      then
        (case runPluginsOnError executions
                \<lparr>pc_method = methodPath, pc_args = args, pc_result = None\<rparr> error of
           (Throws e, calls) \<Rightarrow> (Throws e, calls)
         | (Returns u, calls) \<Rightarrow>
             (case handleError hooks methodPath retried error of
                (r, calls') \<Rightarrow> (r, calls @ calls')))
      else handleError hooks methodPath retried error)"

text \<open>
  \<open>runMethodWithPlugins\<close>. The wrapped function \<open>fn\<close> (with its receiver) is a function
  from the arguments to a completion. Everything in the \<open>try\<close> block that throws, the
  wrapped function as well as an \<open>after\<close> hook, enters the \<open>catch\<close> block.
\<close>

definition runMethodWithPlugins ::
  "(val list \<Rightarrow> val completion) \<Rightarrow> WrapHooks option \<Rightarrow> string \<Rightarrow> val list
     \<Rightarrow> PluginExecution list \<Rightarrow> val completion \<times> hook_call list" where
  "runMethodWithPlugins fn hooks methodPath args executions =
     (case fn args of
        Throws error \<Rightarrow>
          (case catchBlock hooks methodPath args (fn args) executions error of
             (r, calls) \<Rightarrow> (r, CallMethod args # calls))
      | Returns result \<Rightarrow>
          (case runPluginsAfter executions
                  \<lparr>pc_method = methodPath, pc_args = args, pc_result = Some result\<rparr> of
             (Throws error, calls) \<Rightarrow>
               (case catchBlock hooks methodPath args (fn args) executions error of
                  (r, calls') \<Rightarrow> (r, CallMethod args # calls @ calls'))
           | (Returns u, calls) \<Rightarrow>
               (case runAfterHook hooks methodPath result of
                  (Throws error, calls') \<Rightarrow>
                    (case catchBlock hooks methodPath args (fn args) executions error of
                       (r, calls'') \<Rightarrow> (r, CallMethod args # calls @ calls' @ calls''))
                | (Returns final, calls') \<Rightarrow>
                    (Returns final, CallMethod args # calls @ calls'))))"

text \<open>
  The part of \<open>executeCore\<close> between the rate-limit wait and the \<open>finally\<close> block:
  the global \<open>before\<close> hook, the plugins' \<open>before\<close> hooks, then \<open>runMethodWithPlugins\<close>.
  An error thrown by a \<open>before\<close> hook is outside the \<open>try\<close> of
  \<open>runMethodWithPlugins\<close> and rejects the call.
\<close>

definition runPipeline ::
  "(val list \<Rightarrow> val completion) \<Rightarrow> WrapHooks option \<Rightarrow> Plugin list \<Rightarrow> string \<Rightarrow> val list
     \<Rightarrow> val completion \<times> hook_call list" where
  "runPipeline fn hooks plugins methodPath args =
     (case runBeforeHook hooks methodPath args of
        (Throws e, calls) \<Rightarrow> (Throws e, calls)
      | (Returns finalArgs, calls) \<Rightarrow>
          (case runPluginsBefore plugins
                  \<lparr>pc_method = methodPath, pc_args = finalArgs, pc_result = None\<rparr> of
             (Throws e, calls') \<Rightarrow> (Throws e, calls @ calls')
           | (Returns executions, calls') \<Rightarrow>
               (case runMethodWithPlugins fn hooks methodPath finalArgs executions of
                  (r, calls'') \<Rightarrow> (r, calls @ calls' @ calls''))))"


section \<open>Wrapper state, statistics and events (state.ts, types.ts)\<close>

record PerCallOptions =
  pco_timeout :: "int option"
  pco_priority :: "Priority option"
  pco_skipQueue :: "bool option"

record WrapConfig =
  cfg_hooks :: "WrapHooks option"
  cfg_rateLimit :: "RateLimitSetting option"
  cfg_queue :: "QueueConfig option"
  cfg_allowlist :: "string list option"
  cfg_blocklist :: "string list option"

record WrapkitStats =
  requestsPerMinute :: real
  averageLatency :: real
  errorRate :: real
  totalRequests :: nat

text \<open>The keys of \<open>WrapkitEvents\<close>, and an event with its payload.\<close>

datatype WrapkitEventName = Queued | Executing | Completed | RateLimited | Error

datatype WrapkitEvent =
    QueuedEvent string nat
  | ExecutingEvent string int
  | CompletedEvent string int
  | RateLimitedEvent string jsnum
  | ErrorEvent string val bool

fun eventName :: "WrapkitEvent \<Rightarrow> WrapkitEventName" where
  "eventName (QueuedEvent m n) = Queued"
| "eventName (ExecutingEvent m n) = Executing"
| "eventName (CompletedEvent m d) = Completed"
| "eventName (RateLimitedEvent m d) = RateLimited"
| "eventName (ErrorEvent m e w) = Error"

text \<open>
  \<open>WrapperState\<close> is one object in the source. \<open>withOptions\<close> and \<open>use\<close> copy it with
  \<open>{...state, ...}\<close>, which copies the fields \<open>config\<close>, \<open>perCallOptions\<close> and
  \<open>plugins\<close> by value and the fields \<open>stats\<close>, \<open>queueState\<close>, \<open>rateLimiter\<close>,
  \<open>listeners\<close> and \<open>latencies\<close> by reference. The model keeps the first group in
  \<open>WrapperView\<close>, one for each wrapper, and the objects of the second group in
  \<open>Shared\<close>, one for all wrappers derived from one \<open>wrap\<close>.
\<close>

record WrapperView =
  config :: "WrapConfig option"
  perCallOptions :: "PerCallOptions option"
  plugins :: "Plugin list"

text \<open>What the closure \<open>() => executeCore(fn, target, args, hookCtx)\<close> captures.\<close>

record Call =
  c_fn :: "val list \<Rightarrow> val completion"
  c_args :: "val list"
  c_view :: WrapperView
  c_methodPath :: string

text \<open>
  An invocation of \<open>executeCore\<close> that has begun and not finished: it is suspended
  either on the timer inside \<open>waitForRateLimit\<close> or after it. \<open>t_request\<close> is the id
  of the queued request whose \<open>execute()\<close> this is, if the call went through the queue,
  and \<open>t_timedOut\<close> tells that the timer of \<open>executeWithTimeout\<close> has settled that
  request already.
\<close>

datatype phase = WaitingRateLimit | Admitted

record Task =
  t_call :: Call
  t_startTime :: int
  t_phase :: phase
  t_request :: "nat option"
  t_timedOut :: bool

text \<open>
  \<open>listeners\<close> maps an event name to the handlers registered for it, in insertion
  order (a \<open>Set\<close>); handlers are identified by numbers. \<open>delivered\<close> records every call
  of a handler made so far, \<open>inflight\<close> the invocations of \<open>executeCore\<close> in progress.
\<close>

record Shared =
  stats :: WrapkitStats
  latencies :: "int list"
  queueState :: "Call QueueState option"
  rateLimiter :: "RateLimiterState option"
  listeners :: "WrapkitEventName \<Rightarrow> nat list"
  delivered :: "(nat \<times> WrapkitEvent) list"
  inflight :: "Task list"

definition createInitialState :: "WrapConfig option \<Rightarrow> Shared \<times> WrapperView" where
  "createInitialState cfg =
     (\<lparr>stats = \<lparr>requestsPerMinute = 0, averageLatency = 0, errorRate = 0, totalRequests = 0\<rparr>,
       latencies = [],
       queueState =
         (case cfg of None \<Rightarrow> None
          | Some c \<Rightarrow> (case cfg_queue c of None \<Rightarrow> None | Some q \<Rightarrow> Some (createQueue q))),
       rateLimiter =
         (case cfg of None \<Rightarrow> None
          | Some c \<Rightarrow>
              (case cfg_rateLimit c of None \<Rightarrow> None | Some r \<Rightarrow> Some (createRateLimiter r))),
       listeners = (\<lambda>e. []),
       delivered = [],
       inflight = []\<rparr>,
      \<lparr>config = cfg, perCallOptions = None, plugins = []\<rparr>)"

definition createOn :: "Shared \<Rightarrow> WrapkitEventName \<Rightarrow> nat \<Rightarrow> Shared" where
  "createOn sh event handler =
     (if handler \<in> set (listeners sh event) then sh
      else sh\<lparr>listeners := (listeners sh)(event := listeners sh event @ [handler])\<rparr>)"

definition createOff :: "Shared \<Rightarrow> WrapkitEventName \<Rightarrow> nat \<Rightarrow> Shared" where
  "createOff sh event handler =
     sh\<lparr>listeners := (listeners sh)(event := removeAll handler (listeners sh event))\<rparr>"

definition emitEvent :: "Shared \<Rightarrow> WrapkitEvent \<Rightarrow> Shared" where
  "emitEvent sh ev =
     sh\<lparr>delivered := delivered sh @ map (\<lambda>handler. (handler, ev)) (listeners sh (eventName ev))\<rparr>"

definition updateStats :: "Shared \<Rightarrow> int \<Rightarrow> Shared" where
  "updateStats sh latencyMs =
     (let lat = latencies sh @ [latencyMs];
          total = totalRequests (stats sh) + 1;
          total_latency = sum_list lat
      in sh\<lparr>latencies := lat,
             stats := (stats sh)\<lparr>totalRequests := total,
                                 averageLatency := real_of_int total_latency / real (length lat)\<rparr>\<rparr>)"

definition createWithOptions :: "WrapperView \<Rightarrow> PerCallOptions \<Rightarrow> WrapperView" where
  "createWithOptions state opts = state\<lparr>perCallOptions := Some opts\<rparr>"

definition createUse :: "WrapperView \<Rightarrow> Plugin \<Rightarrow> WrapperView" where
  "createUse state plugin = state\<lparr>plugins := plugins state @ [plugin]\<rparr>"

text \<open>\<open>validateConfig\<close> and \<open>wrap\<close>: an array is truthy even when empty.\<close>

definition wrap :: "WrapConfig option \<Rightarrow> string + Shared \<times> WrapperView" where
  "wrap cfg =
     (case cfg of
        None \<Rightarrow> Inr (createInitialState cfg)
      | Some c \<Rightarrow>
          if cfg_allowlist c \<noteq> None \<and> cfg_blocklist c \<noteq> None
          then Inl ''Cannot specify both allowlist and blocklist. Use one or the other.''
          else Inr (createInitialState cfg))"


section \<open>The execution pipeline (wrap.ts)\<close>

text \<open>
  A call runs in synchronous segments separated by \<open>await\<close>. Each segment is one
  function of the model from the shared state to the shared state; a segment that
  cannot run in a state returns \<open>None\<close>.
\<close>

definition hooksOf :: "WrapperView \<Rightarrow> WrapHooks option" where
  "hooksOf state = (case config state of None \<Rightarrow> None | Some c \<Rightarrow> cfg_hooks c)"

text \<open>\<open>config?.allowlist\<close> and \<open>config?.blocklist\<close>.\<close>

definition allowlistOf :: "WrapperView \<Rightarrow> string list option" where
  "allowlistOf state = (case config state of None \<Rightarrow> None | Some c \<Rightarrow> cfg_allowlist c)"

definition blocklistOf :: "WrapperView \<Rightarrow> string list option" where
  "blocklistOf state = (case config state of None \<Rightarrow> None | Some c \<Rightarrow> cfg_blocklist c)"

definition checkMethodAccess :: "WrapperView \<Rightarrow> string \<Rightarrow> AccessCheckResult" where
  "checkMethodAccess state methodPath =
     checkAccess
       \<lparr>ac_methodPath = methodPath,
        ac_allowlist = allowlistOf state,
        ac_blocklist = blocklistOf state\<rparr>"

text \<open>
  One round of \<open>waitForRateLimit\<close>: \<open>tryAcquire\<close> and, when it is denied, the
  \<open>rateLimited\<close> event that precedes the wait. Without a rate limiter the function
  returns at once.
\<close>

definition acquireStep :: "Shared \<Rightarrow> string \<Rightarrow> int \<Rightarrow> bool \<times> Shared" where
  "acquireStep sh methodPath now =
     (case rateLimiter sh of
        None \<Rightarrow> (True, sh)
      | Some limiter \<Rightarrow>
          (let (result, limiter') = tryAcquire limiter methodPath now;
               sh1 = sh\<lparr>rateLimiter := Some limiter'\<rparr>
           in if canProceed result then (True, sh1)
              else (False, emitEvent sh1 (RateLimitedEvent methodPath (delayMs result)))))"

text \<open>
  The synchronous beginning of \<open>executeCore\<close>: the start time, the \<open>executing\<close> event
  and the first round of \<open>waitForRateLimit\<close>.
\<close>

definition beginExecute :: "Shared \<Rightarrow> Call \<Rightarrow> nat option \<Rightarrow> int \<Rightarrow> Shared" where
  "beginExecute sh call request now =
     (let concurrent = (case queueState sh of Some q \<Rightarrow> getRunningCount q | None \<Rightarrow> 1);
          sh1 = emitEvent sh (ExecutingEvent (c_methodPath call) concurrent);
          (admitted, sh2) = acquireStep sh1 (c_methodPath call) now
      in sh2\<lparr>inflight := inflight sh2 @
                [\<lparr>t_call = call, t_startTime = now,
                  t_phase = (if admitted then Admitted else WaitingRateLimit),
                  t_request = request, t_timedOut = False\<rparr>]\<rparr>)"

text \<open>
  What \<open>processNext\<close> does with the request it has removed from the queue:
  \<open>executeWithTimeout\<close> calls \<open>request.execute()\<close>.
\<close>

definition dispatch :: "Shared \<Rightarrow> Call QueuedRequest option \<Rightarrow> int \<Rightarrow> Shared" where
  "dispatch sh started now =
     (case started of
        None \<Rightarrow> sh
      | Some request \<Rightarrow> beginExecute sh (execute request) (Some (rq_id request)) now)"

text \<open>
  The promise \<open>executeWithHooks\<close> returns is rejected at once or is pending; a pending
  call that went to the queue carries the id of its request.
\<close>

datatype call_result = Rejected val | Pending "nat option"

definition executeWithHooks ::
  "Shared \<Rightarrow> WrapperView \<Rightarrow> (val list \<Rightarrow> val completion) \<Rightarrow> val list \<Rightarrow> string \<Rightarrow> int
     \<Rightarrow> call_result \<times> Shared" where
  "executeWithHooks sh state fn args methodPath now =
     (let access = checkMethodAccess state methodPath in
      if \<not> isAllowed access
      then (Rejected (ErrorObj (case reason access of None \<Rightarrow> [] | Some r \<Rightarrow> r)), sh)
      else
        (let priority =
               (case perCallOptions state of
                  None \<Rightarrow> Normal
                | Some opts \<Rightarrow> (case pco_priority opts of None \<Rightarrow> Normal | Some p \<Rightarrow> p));
             call = \<lparr>c_fn = fn, c_args = args, c_view = state, c_methodPath = methodPath\<rparr>
         in case queueState sh of
              Some q \<Rightarrow>
                (let sh1 = emitEvent sh (QueuedEvent methodPath (getQueueSize q + 1)) in
                 case enqueue q \<lparr>eo_methodPath = methodPath, eo_priority = priority,
                                  eo_execute = call\<rparr> of
                   (Inl message, q') \<Rightarrow> (Rejected (ErrorObj message), sh1\<lparr>queueState := Some q'\<rparr>)
                 | (Inr (request, started), q') \<Rightarrow>
                     (Pending (Some request), dispatch (sh1\<lparr>queueState := Some q'\<rparr>) started now))
            | None \<Rightarrow> (Pending None, beginExecute sh call None now)))"

text \<open>A later round of \<open>waitForRateLimit\<close>, when the timer of the previous one fires.\<close>

definition retryAcquire :: "Shared \<Rightarrow> nat \<Rightarrow> int \<Rightarrow> Shared option" where
  "retryAcquire sh i now =
     (if i < length (inflight sh) \<and> t_phase (inflight sh ! i) = WaitingRateLimit
      then
        (let task = inflight sh ! i;
             (admitted, sh1) = acquireStep sh (c_methodPath (t_call task)) now
         in Some (if admitted
                  then sh1\<lparr>inflight := (inflight sh1)[i := task\<lparr>t_phase := Admitted\<rparr>]\<rparr>
                  else sh1))
      else None)"

definition emitCompletion :: "Shared \<Rightarrow> string \<Rightarrow> int \<Rightarrow> int \<Rightarrow> Shared" where
  "emitCompletion sh methodPath startTime now =
     (let latencyMs = now - startTime;
          sh1 = updateStats sh latencyMs;
          sh2 = emitEvent sh1 (CompletedEvent methodPath latencyMs)
      in case rateLimiter sh2 of
           None \<Rightarrow> sh2
         | Some limiter \<Rightarrow> sh2\<lparr>rateLimiter := Some (decrementConcurrent limiter methodPath)\<rparr>)"

text \<open>
  \<open>String(error)\<close>, used by the queue to turn a rejection that is not an \<open>Error\<close> into
  one.
\<close>

fun digits :: "nat \<Rightarrow> string" where
  "digits n = (if n < 10 then [char_of (48 + n)] else digits (n div 10) @ [char_of (48 + n mod 10)])"

fun joinComma :: "string list \<Rightarrow> string" where
  "joinComma [] = []"
| "joinComma [x] = x"
| "joinComma (x # y # ys) = x @ '','' @ joinComma (y # ys)"

fun String :: "val \<Rightarrow> string" where
  "String Undefined = ''undefined''"
| "String Null = ''null''"
| "String (Bool b) = (if b then ''true'' else ''false'')"
| "String (Num n) = (if n < 0 then ''-'' @ digits (nat (- n)) else digits (nat n))"
| "String (Str s) = s"
| "String (ErrorObj m) = (if m = [] then ''Error'' else ''Error: '' @ m)"
| "String (Arr vs) = joinComma (map (\<lambda>v. if nullish v then [] else String v) vs)"

text \<open>
  The \<open>then\<close> and \<open>catch\<close> callbacks of \<open>processNext\<close>: what the caller of a queued
  call receives for a completion of \<open>executeWithTimeout\<close>.
\<close>

fun requestOutcome :: "val completion \<Rightarrow> val completion" where
  "requestOutcome (Returns result) = Returns result"
| "requestOutcome (Throws error) =
     Throws (if instanceofError error then error else ErrorObj (String error))"

text \<open>The \<open>finally\<close> callback of \<open>processNext\<close> on the shared state.\<close>

definition settleRequest :: "Shared \<Rightarrow> int \<Rightarrow> Shared" where
  "settleRequest sh now =
     (case queueState sh of
        None \<Rightarrow> sh
      | Some q \<Rightarrow> (case settle q of (q', started) \<Rightarrow> dispatch (sh\<lparr>queueState := Some q'\<rparr>) started now))"

text \<open>
  The rest of \<open>executeCore\<close> for a task past the rate limiter: the hooks, the plugins
  and the wrapped function, then the \<open>finally\<close> block, then, for a task of the queue
  whose request the timer has not settled, the callbacks of \<open>processNext\<close>. The user
  code is pure in the model, so these steps are taken together. The result is the new
  state, the completion the caller receives (none when the timer has settled the request
  before) and the calls of user code.
\<close>

definition finish ::
  "Shared \<Rightarrow> nat \<Rightarrow> int \<Rightarrow> (Shared \<times> val completion option \<times> hook_call list) option" where
  "finish sh i now =
     (if i < length (inflight sh) \<and> t_phase (inflight sh ! i) = Admitted
      then
        (let task = inflight sh ! i;
             call = t_call task;
             state = c_view call;
             (outcome, calls) =
               runPipeline (c_fn call) (hooksOf state) (plugins state) (c_methodPath call)
                 (c_args call);
             sh1 = emitCompletion sh (c_methodPath call) (t_startTime task) now;
             sh2 = sh1\<lparr>inflight := take i (inflight sh1) @ drop (Suc i) (inflight sh1)\<rparr>
         in case t_request task of
              None \<Rightarrow> Some (sh2, Some outcome, calls)
            | Some request \<Rightarrow>
                if t_timedOut task then Some (sh2, None, calls)
                else Some (settleRequest sh2 now, Some (requestOutcome outcome), calls))
      else None)"

text \<open>
  The timer of \<open>executeWithTimeout\<close> fires for a queued request whose task is still in
  progress: the caller's promise is rejected with \<open>Request timed out\<close>, the \<open>finally\<close>
  callback runs, and the task goes on to its end. A timeout that is not truthy starts
  no timer.
\<close>

definition timeoutOf :: "Shared \<Rightarrow> int option" where
  "timeoutOf sh =
     (case queueState sh of
        None \<Rightarrow> None
      | Some q \<Rightarrow>
          (case qc_timeout (q_config q) of
             None \<Rightarrow> None
           | Some timeoutMs \<Rightarrow> if timeoutMs = 0 then None else Some timeoutMs))"

definition timeoutFires :: "Shared \<Rightarrow> nat \<Rightarrow> int \<Rightarrow> (Shared \<times> val completion) option" where
  "timeoutFires sh i now =
     (if i < length (inflight sh) \<and> t_request (inflight sh ! i) \<noteq> None
           \<and> \<not> t_timedOut (inflight sh ! i)
      then
        (case timeoutOf sh of
           None \<Rightarrow> None
         | Some timeoutMs \<Rightarrow>
             if now < t_startTime (inflight sh ! i) + timeoutMs then None
             else
               (let task = inflight sh ! i;
                    sh1 = sh\<lparr>inflight := (inflight sh)[i := task\<lparr>t_timedOut := True\<rparr>]\<rparr>
                in Some (settleRequest sh1 now, Throws (ErrorObj ''Request timed out''))))
      else None)"

text \<open>The queue control of the wrapper: \<open>pause\<close>, \<open>resume\<close> and \<open>clear\<close>.\<close>

definition queuePause :: "Shared \<Rightarrow> Shared" where
  "queuePause sh =
     (case queueState sh of None \<Rightarrow> sh | Some q \<Rightarrow> sh\<lparr>queueState := Some (pauseQueue q)\<rparr>)"

definition queueResume :: "Shared \<Rightarrow> int \<Rightarrow> Shared" where
  "queueResume sh now =
     (case queueState sh of
        None \<Rightarrow> sh
      | Some q \<Rightarrow>
          (case resumeQueue q of (q', started) \<Rightarrow> dispatch (sh\<lparr>queueState := Some q'\<rparr>) started now))"

definition queueClear :: "Shared \<Rightarrow> Shared" where
  "queueClear sh =
     (case queueState sh of None \<Rightarrow> sh | Some q \<Rightarrow> sh\<lparr>queueState := Some (fst (clearQueue q))\<rparr>)"

text \<open>
  The states a wrapper made with configuration \<open>cfg\<close> can be in: the initial state and
  every state one of the segments above leads to. A call may come through any wrapper
  derived by \<open>withOptions\<close> and \<open>use\<close>, that is, any view with the same configuration.
\<close>

inductive reachable :: "WrapConfig option \<Rightarrow> Shared \<Rightarrow> bool" for cfg :: "WrapConfig option" where
  r_init: "reachable cfg (fst (createInitialState cfg))"
| r_call: "reachable cfg sh \<Longrightarrow> config state = cfg
     \<Longrightarrow> reachable cfg (snd (executeWithHooks sh state fn args methodPath now))"
| r_retry: "reachable cfg sh \<Longrightarrow> retryAcquire sh i now = Some sh' \<Longrightarrow> reachable cfg sh'"
| r_finish: "reachable cfg sh \<Longrightarrow> finish sh i now = Some (sh', res) \<Longrightarrow> reachable cfg sh'"
| r_timeout: "reachable cfg sh \<Longrightarrow> timeoutFires sh i now = Some (sh', res') \<Longrightarrow> reachable cfg sh'"
| r_pause: "reachable cfg sh \<Longrightarrow> reachable cfg (queuePause sh)"
| r_resume: "reachable cfg sh \<Longrightarrow> reachable cfg (queueResume sh now)"
| r_clear: "reachable cfg sh \<Longrightarrow> reachable cfg (queueClear sh)"
| r_on: "reachable cfg sh \<Longrightarrow> reachable cfg (createOn sh event handler)"
| r_off: "reachable cfg sh \<Longrightarrow> reachable cfg (createOff sh event handler)"

section \<open>Properties stated about the program\<close>

text \<open>
  A path is blocked when a blocklist is configured and one of its patterns matches;
  it is unlisted when an allowlist is configured and none of its patterns matches.
\<close>

definition isBlocked :: "WrapperView \<Rightarrow> string \<Rightarrow> bool" where
  "isBlocked state methodPath =
     (case blocklistOf state of None \<Rightarrow> False | Some bl \<Rightarrow> matchesAnyPattern methodPath bl)"

definition isUnlisted :: "WrapperView \<Rightarrow> string \<Rightarrow> bool" where
  "isUnlisted state methodPath =
     (case allowlistOf state of None \<Rightarrow> False | Some al \<Rightarrow> \<not> matchesAnyPattern methodPath al)"

text \<open>
  The statistics fields that stay at their initial value, and no delivery of an
  \<open>error\<close> event to any handler.
\<close>

definition inert :: "Shared \<Rightarrow> bool" where
  "inert sh =
     (errorRate (stats sh) = 0 \<and> requestsPerMinute (stats sh) = 0
      \<and> list_all (\<lambda>d. eventName (snd d) \<noteq> Error) (delivered sh))"

text \<open>
  The order in which the queue serves requests: by priority rank, then by arrival id.
\<close>

definition precedes :: "'c QueuedRequest \<Rightarrow> 'c QueuedRequest \<Rightarrow> bool" where
  "precedes a b =
     (PRIORITY_ORDER (rq_priority a) < PRIORITY_ORDER (rq_priority b)
      \<or> (PRIORITY_ORDER (rq_priority a) = PRIORITY_ORDER (rq_priority b) \<and> rq_id a \<le> rq_id b))"

text \<open>
  A bucket within bounds: its numbers are finite, the rate is not negative, and the
  tokens lie between 0 and \<open>maxTokens\<close>.
\<close>

definition bucketInBounds :: "TokenBucket \<Rightarrow> bool" where
  "bucketInBounds b =
     (\<exists>t m r. tokens b = Fin t \<and> maxTokens b = Fin m \<and> tokensPerMs b = Fin r
              \<and> 0 \<le> t \<and> t \<le> m \<and> 0 \<le> r)"

subsection \<open>Example configurations\<close>

text \<open>
  A queue of concurrency 2 that is paused, receives four requests of priorities normal,
  low, high and critical, and is then ready to be resumed.
\<close>

definition exampleQueue :: "unit QueueState" where
  "exampleQueue = createQueue \<lparr>qc_concurrency = Some 2, qc_timeout = None, qc_maxSize = None\<rparr>"

definition exampleEnqueue :: "Priority \<Rightarrow> unit QueueState \<Rightarrow> unit QueueState" where
  "exampleEnqueue p state =
     snd (enqueue state \<lparr>eo_methodPath = ''fast'', eo_priority = p, eo_execute = ()\<rparr>)"

definition pausedQueue :: "unit QueueState" where
  "pausedQueue =
     exampleEnqueue Critical (exampleEnqueue High (exampleEnqueue Low
       (exampleEnqueue Normal (pauseQueue exampleQueue))))"

text \<open>
  Rate limiters: one with a concurrency cap of 0, one with a concurrency cap and no
  rate, one whose single slot is taken, one of 2 requests per second whose two tokens
  are spent.
\<close>

definition zeroCapConfig :: RateLimitConfig where
  "zeroCapConfig = \<lparr>cfg_requestsPerSecond = Some (Fin 10), cfg_requestsPerMinute = None,
                     cfg_concurrency = Some (Fin 0)\<rparr>"

definition zeroCapLimiter :: RateLimiterState where
  "zeroCapLimiter = createRateLimiter (FlatConfig zeroCapConfig)"

definition capOnlyLimiter :: RateLimiterState where
  "capOnlyLimiter =
     createRateLimiter (FlatConfig \<lparr>cfg_requestsPerSecond = None, cfg_requestsPerMinute = None,
                                    cfg_concurrency = Some (Fin 2)\<rparr>)"

definition busyLimiter :: RateLimiterState where
  "busyLimiter =
     snd (tryAcquire
       (createRateLimiter (FlatConfig \<lparr>cfg_requestsPerSecond = Some (Fin 1000),
          cfg_requestsPerMinute = None, cfg_concurrency = Some (Fin 1)\<rparr>)) ''slow'' 0)"

definition drainedLimiter :: RateLimiterState where
  "drainedLimiter =
     snd (tryAcquire (snd (tryAcquire
       (createRateLimiter (FlatConfig \<lparr>cfg_requestsPerSecond = Some (Fin 2),
          cfg_requestsPerMinute = None, cfg_concurrency = None\<rparr>)) ''fast'' 0)) ''fast'' 0)"

subsection \<open>The order of hook calls\<close>

text \<open>
  The arguments after the global \<open>before\<close> hook, and the context value a plugin's own
  \<open>before\<close> hook returns for a plugin context (\<open>undefined\<close> for a plugin without one).
\<close>

definition finalArgsOf :: "WrapHooks option \<Rightarrow> string \<Rightarrow> val list \<Rightarrow> val list" where
  "finalArgsOf hooks methodPath args =
     (case fst (runBeforeHook hooks methodPath args) of Returns a \<Rightarrow> a | Throws e \<Rightarrow> args)"

definition ownContext :: "Plugin \<Rightarrow> PluginContext \<Rightarrow> val" where
  "ownContext pl ctx =
     (case p_before pl of
        None \<Rightarrow> Undefined
      | Some hook \<Rightarrow> (case hook ctx of Returns c \<Rightarrow> c | Throws e \<Rightarrow> Undefined))"

text \<open>
  That a hook does not throw is said of one invocation, at the arguments the hook
  receives in the call at hand; a hook that is not configured cannot throw. What the hook
  does at other arguments, and what hooks do that the call never invokes, is left open.
\<close>

fun returns :: "'a completion \<Rightarrow> bool" where
  "returns (Returns v) = True"
| "returns (Throws e) = False"

definition beforeHookReturns :: "WrapHooks option \<Rightarrow> string \<Rightarrow> val list \<Rightarrow> bool" where
  "beforeHookReturns hooks methodPath args =
     (case hooks of
        None \<Rightarrow> True
      | Some h \<Rightarrow> (case h_before h of None \<Rightarrow> True | Some hook \<Rightarrow> returns (hook methodPath args)))"

definition afterHookReturns :: "WrapHooks option \<Rightarrow> string \<Rightarrow> val \<Rightarrow> bool" where
  "afterHookReturns hooks methodPath result =
     (case hooks of
        None \<Rightarrow> True
      | Some h \<Rightarrow> (case h_after h of None \<Rightarrow> True | Some hook \<Rightarrow> returns (hook methodPath result)))"

definition pluginBeforeReturns :: "PluginContext \<Rightarrow> Plugin \<Rightarrow> bool" where
  "pluginBeforeReturns ctx pl =
     (case p_before pl of None \<Rightarrow> True | Some hook \<Rightarrow> returns (hook ctx))"

definition pluginAfterReturns :: "PluginContext \<Rightarrow> val \<Rightarrow> Plugin \<Rightarrow> bool" where
  "pluginAfterReturns ctx result pl =
     (case p_after pl of
        None \<Rightarrow> True
      | Some hook \<Rightarrow> returns (hook (ctx\<lparr>pc_result := Some result\<rparr>) (ownContext pl ctx)))"

definition pluginOnErrorReturns :: "PluginContext \<Rightarrow> val \<Rightarrow> Plugin \<Rightarrow> bool" where
  "pluginOnErrorReturns ctx error pl =
     (case p_onError pl of
        None \<Rightarrow> True
      | Some hook \<Rightarrow> returns (hook ctx (ownContext pl ctx) error))"

text \<open>
  The plugin context of a call, and the call in which no hook throws, the global
  \<open>onError\<close> hook apart: the global \<open>before\<close> hook and the plugins' \<open>before\<close> hooks
  return; then, when the wrapped function returns, the plugins' \<open>after\<close> hooks and the
  global \<open>after\<close> hook return, and when it throws an instance of \<open>Error\<close>, the plugins'
  \<open>onError\<close> hooks return. Nothing is asked of a hook the call does not reach.
\<close>

definition contextOf :: "WrapHooks option \<Rightarrow> string \<Rightarrow> val list \<Rightarrow> PluginContext" where
  "contextOf hooks methodPath args =
     \<lparr>pc_method = methodPath, pc_args = finalArgsOf hooks methodPath args, pc_result = None\<rparr>"

definition noHookThrows ::
  "(val list \<Rightarrow> val completion) \<Rightarrow> WrapHooks option \<Rightarrow> Plugin list \<Rightarrow> string \<Rightarrow> val list
     \<Rightarrow> bool" where
  "noHookThrows fn hooks pls methodPath args =
     (beforeHookReturns hooks methodPath args
      \<and> list_all (pluginBeforeReturns (contextOf hooks methodPath args)) pls
      \<and> (case fn (finalArgsOf hooks methodPath args) of
            Returns result \<Rightarrow>
              list_all (pluginAfterReturns (contextOf hooks methodPath args) result) pls
              \<and> afterHookReturns hooks methodPath result
          | Throws error \<Rightarrow>
              if instanceofError error
              then list_all (pluginOnErrorReturns (contextOf hooks methodPath args) error) pls
              else True))"

text \<open>
  The calls the documentation promises: the plugins' \<open>before\<close> hooks in registration
  order, their \<open>after\<close> hooks and their \<open>onError\<close> hooks in reverse registration order,
  each with the plugin's own context; and the call of a global hook when it is
  configured.
\<close>

definition beforeCalls :: "Plugin list \<Rightarrow> PluginContext \<Rightarrow> hook_call list" where
  "beforeCalls pls ctx =
     map (\<lambda>pl. CallPluginBefore (p_name pl) ctx) (filter (\<lambda>pl. p_before pl \<noteq> None) pls)"

definition afterCalls :: "Plugin list \<Rightarrow> PluginContext \<Rightarrow> val \<Rightarrow> hook_call list" where
  "afterCalls pls ctx result =
     map (\<lambda>pl. CallPluginAfter (p_name pl) (ctx\<lparr>pc_result := Some result\<rparr>) (ownContext pl ctx))
       (rev (filter (\<lambda>pl. p_after pl \<noteq> None) pls))"

definition onErrorCalls :: "Plugin list \<Rightarrow> PluginContext \<Rightarrow> val \<Rightarrow> hook_call list" where
  "onErrorCalls pls ctx error =
     map (\<lambda>pl. CallPluginOnError (p_name pl) ctx (ownContext pl ctx) error)
       (rev (filter (\<lambda>pl. p_onError pl \<noteq> None) pls))"

definition globalBeforeCall :: "WrapHooks option \<Rightarrow> string \<Rightarrow> val list \<Rightarrow> hook_call list" where
  "globalBeforeCall hooks methodPath args =
     (case hooks of None \<Rightarrow> []
      | Some h \<Rightarrow> (case h_before h of None \<Rightarrow> [] | Some hook \<Rightarrow> [CallBefore methodPath args]))"

definition globalAfterCall :: "WrapHooks option \<Rightarrow> string \<Rightarrow> val \<Rightarrow> hook_call list" where
  "globalAfterCall hooks methodPath result =
     (case hooks of None \<Rightarrow> []
      | Some h \<Rightarrow> (case h_after h of None \<Rightarrow> [] | Some hook \<Rightarrow> [CallAfter methodPath result]))"

definition globalOnErrorCall :: "WrapHooks option \<Rightarrow> string \<Rightarrow> val \<Rightarrow> hook_call list" where
  "globalOnErrorCall hooks methodPath error =
     (case onErrorHook hooks of None \<Rightarrow> [] | Some hook \<Rightarrow> [CallOnError methodPath error])"

text \<open>
  Example plugins and functions: a plugin with all three hooks whose \<open>before\<close> returns
  its own name as context; a wrapped function that succeeds, one that throws an
  \<open>Error\<close>, one that throws a string; a configuration whose \<open>onError\<close> hook returns a
  fallback value.
\<close>

definition namedPlugin :: "string \<Rightarrow> Plugin" where
  "namedPlugin n =
     \<lparr>p_name = n,
      p_before = Some (\<lambda>ctx. Returns (Str n)),
      p_after = Some (\<lambda>ctx c. Returns Undefined),
      p_onError = Some (\<lambda>ctx c e. Returns Undefined)\<rparr>"

definition threePlugins :: "Plugin list" where
  "threePlugins = [namedPlugin ''1'', namedPlugin ''2'', namedPlugin ''3'']"

definition succeeding :: "val list \<Rightarrow> val completion" where
  "succeeding args = Returns (Str ''result'')"

definition failing :: "val list \<Rightarrow> val completion" where
  "failing args = Throws (ErrorObj ''intentional error'')"

definition failingWithString :: "val list \<Rightarrow> val completion" where
  "failingWithString args = Throws (Str ''intentional error'')"

definition fallbackHooks :: "WrapHooks option" where
  "fallbackHooks =
     Some \<lparr>h_before = None, h_after = None,
           h_onError = Some (\<lambda>m e retried. Returns (Str ''fallback-value''))\<rparr>"

text \<open>A plugin whose \<open>after\<close> hook throws.\<close>

definition throwingAfterPlugin :: "string \<Rightarrow> Plugin" where
  "throwingAfterPlugin n =
     \<lparr>p_name = n,
      p_before = Some (\<lambda>ctx. Returns (Str n)),
      p_after = Some (\<lambda>ctx c. Throws (ErrorObj ''after failed'')),
      p_onError = Some (\<lambda>ctx c e. Returns Undefined)\<rparr>"

text \<open>
  A plugin whose \<open>onError\<close> hook throws the error on, and one whose \<open>before\<close> hook
  throws for every method but \<open>doSomething\<close>.
\<close>

definition rethrowingPlugin :: "string \<Rightarrow> Plugin" where
  "rethrowingPlugin n =
     \<lparr>p_name = n,
      p_before = Some (\<lambda>ctx. Returns (Str n)),
      p_after = Some (\<lambda>ctx c. Returns Undefined),
      p_onError = Some (\<lambda>ctx c e. Throws e)\<rparr>"

definition pickyPlugin :: "string \<Rightarrow> Plugin" where
  "pickyPlugin n =
     \<lparr>p_name = n,
      p_before = Some (\<lambda>ctx. if pc_method ctx = ''doSomething'' then Returns (Str n)
                               else Throws (ErrorObj ''unsupported method'')),
      p_after = Some (\<lambda>ctx c. Returns Undefined),
      p_onError = Some (\<lambda>ctx c e. Returns Undefined)\<rparr>"

subsection \<open>Paths and pieces of a match\<close>

text \<open>
  A path is well formed when none of its dot-separated segments is empty and none
  contains a line terminator. \<open>join_dot\<close> puts segments together again.
\<close>

definition wellFormedSegment :: "string \<Rightarrow> bool" where
  "wellFormedSegment s = (s \<noteq> [] \<and> list_all (\<lambda>c. \<not> line_terminator c) s)"

definition wellFormedPath :: "string \<Rightarrow> bool" where
  "wellFormedPath path = list_all wellFormedSegment (split_on CHR ''.'' path)"

fun join_dot :: "string list \<Rightarrow> string" where
  "join_dot [] = []"
| "join_dot [s] = s"
| "join_dot (s # t # ss) = s @ CHR ''.'' # join_dot (t # ss)"

text \<open>The piece of the string one item of a regular expression takes.\<close>

fun rx_item :: "rx \<Rightarrow> string \<Rightarrow> bool" where
  "rx_item (Lit l) u = (u = l)"
| "rx_item AnyPlus u = (u \<noteq> [] \<and> list_all (\<lambda>c. \<not> line_terminator c) u)"
| "rx_item NotDotPlus u = (u \<noteq> [] \<and> list_all (\<lambda>c. c \<noteq> CHR ''.'') u)"

text \<open>The segments one segment of a pattern takes.\<close>

definition seg_item :: "string \<Rightarrow> string list \<Rightarrow> bool" where
  "seg_item p ss =
     (if p = ''**'' then ss \<noteq> []
      else if p = ''*'' then length ss = 1 \<and> hd ss \<noteq> [] \<and> CHR ''.'' \<notin> set (hd ss)
      else ss = [p])"

section \<open>Unfolding the model on concrete inputs\<close>

lemmas call_defs = executeWithHooks_def createInitialState_def checkMethodAccess_def
  checkAccess_def allowlistOf_def blocklistOf_def beginExecute_def emitEvent_def
  acquireStep_def createOn_def Let_def createWithOptions_def queuePause_def pauseQueue_def
  createQueue_def enqueue_def queueIsFull_def processNext_def canProcessNext_def dispatch_def
  getQueueSize_def

lemmas queue_defs = exampleQueue_def exampleEnqueue_def pausedQueue_def createQueue_def
  enqueue_def pauseQueue_def resumeQueue_def processNext_def canProcessNext_def
  belowConcurrency_def queueIsFull_def sort_by_def sortByPriority_def noIdleSlot_def settle_def

lemmas limiter_defs = zeroCapConfig_def zeroCapLimiter_def capOnlyLimiter_def busyLimiter_def
  drainedLimiter_def tryAcquire_def createRateLimiter_def concurrencyReached_def getBucket_def
  createBucket_def getRequestsPerSecond_def truthy_def refillBucket_def jmin_def jmax_def
  jsub_def putBucket_def incrementConcurrent_def currentCount_def Let_def sgn_inf_def

lemmas hook_defs = namedPlugin_def threePlugins_def succeeding_def failing_def
  failingWithString_def fallbackHooks_def throwingAfterPlugin_def rethrowingPlugin_def
  pickyPlugin_def runPipeline_def
  runMethodWithPlugins_def catchBlock_def runPluginsAfter_def runPluginsOnError_def
  handleError_def onErrorHook_def

lemmas order_defs = noHookThrows_def contextOf_def finalArgsOf_def beforeHookReturns_def
  afterHookReturns_def pluginBeforeReturns_def pluginAfterReturns_def pluginOnErrorReturns_def
  ownContext_def beforeCalls_def afterCalls_def onErrorCalls_def globalBeforeCall_def
  globalAfterCall_def globalOnErrorCall_def onErrorHook_def

section \<open>Per-call options\<close>

text \<open>
  Claim C1 says that a call through \<open>withOptions({skipQueue: true})\<close> bypasses the
  queue. The test of the repository for it, evaluated on the code: a wrapper with a queue
  of concurrency 1 is paused and a call is made through the derived wrapper. The call
  is given request id 0 and put into the queue, no execution has begun, and nothing can
  finish until the queue is resumed.
\<close>

theorem skipQueue_call_is_enqueued:
  "(let cfg = Some \<lparr>cfg_hooks = None, cfg_rateLimit = None,
                    cfg_queue = Some \<lparr>qc_concurrency = Some 1, qc_timeout = None, qc_maxSize = None\<rparr>,
                    cfg_allowlist = None, cfg_blocklist = None\<rparr>;
        sh = queuePause (fst (createInitialState cfg));
        state = createWithOptions (snd (createInitialState cfg))
                  \<lparr>pco_timeout = None, pco_priority = None, pco_skipQueue = Some True\<rparr>;
        (res, sh') = executeWithHooks sh state (\<lambda>a. Returns (Str ''result'')) [Arr []]
                       ''chat.completions.create'' 0
    in res = Pending (Some 0)
       \<and> map_option (\<lambda>q. (map rq_id (queue q), running q, paused q)) (queueState sh')
           = Some ([0], 0, True)
       \<and> inflight sh' = []
       \<and> finish sh' 0 1 = None)"
  by (simp add: call_defs finish_def)

text \<open>
  Claim C2 says that a call through \<open>withOptions({timeout: 10})\<close> is rejected when the
  wrapped call has not settled after 10 ms. The test of the repository for it, evaluated
  on the code: a wrapper without configuration, a call through the derived wrapper at
  time 0 whose wrapped function settles at time 100. No timer can fire for the call, at
  10 ms or later, and the call resolves with the result of the wrapped function.
\<close>

theorem withOptions_timeout_is_ignored:
  "(let sh = fst (createInitialState None);
        state = createWithOptions (snd (createInitialState None))
                  \<lparr>pco_timeout = Some 10, pco_priority = None, pco_skipQueue = None\<rparr>;
        (res, sh1) = executeWithHooks sh state (\<lambda>a. Returns (Str ''slow'')) [Arr []]
                       ''chat.completions.create'' 0
    in res = Pending None
       \<and> timeoutFires sh1 0 10 = None
       \<and> timeoutFires sh1 0 100 = None
       \<and> map_option (\<lambda>(sh2, res, calls). (res, latencies sh2)) (finish sh1 0 100)
           = Some (Some (Returns (Str ''slow'')), [100]))"
  by (simp add: call_defs finish_def timeoutFires_def timeoutOf_def runPipeline_def hooksOf_def
      runMethodWithPlugins_def runPluginsAfter_def emitCompletion_def updateStats_def
      split: prod.splits)

section \<open>Access control is the first gate\<close>

text \<open>
  Claim C4. For every call, access control is decided first: a path that matches a
  pattern of the configured blocklist is denied with the reason
  \<open>Method "<path>" is blocked\<close>; otherwise a path that matches no pattern of the
  configured allowlist is denied with the reason \<open>Method "<path>" is not allowed\<close>;
  otherwise, and always when neither list is configured, the call is allowed. A denied
  call is rejected with that reason and leaves the whole shared state as it was: the
  queue, the rate limiter, the statistics, the delivered events and the tasks in
  progress (so no hook has run).
\<close>

theorem access_control_first_gate:
  \<open>(isBlocked state methodPath \<longrightarrow>
       checkMethodAccess state methodPath =
         \<lparr>isAllowed = False, reason = Some (''Method "'' @ methodPath @ ''" is blocked'')\<rparr>
       \<and> executeWithHooks sh state fn args methodPath now =
         (Rejected (ErrorObj (''Method "'' @ methodPath @ ''" is blocked'')), sh))
   \<and> (\<not> isBlocked state methodPath \<and> isUnlisted state methodPath \<longrightarrow>
       checkMethodAccess state methodPath =
         \<lparr>isAllowed = False, reason = Some (''Method "'' @ methodPath @ ''" is not allowed'')\<rparr>
       \<and> executeWithHooks sh state fn args methodPath now =
         (Rejected (ErrorObj (''Method "'' @ methodPath @ ''" is not allowed'')), sh))
   \<and> (\<not> isBlocked state methodPath \<and> \<not> isUnlisted state methodPath \<longrightarrow>
       checkMethodAccess state methodPath = \<lparr>isAllowed = True, reason = None\<rparr>)
   \<and> (blocklistOf state = None \<and> allowlistOf state = None \<longrightarrow>
       isAllowed (checkMethodAccess state methodPath))\<close>
  by (simp add: isBlocked_def isUnlisted_def checkMethodAccess_def checkAccess_def
      executeWithHooks_def)

theorem access_control_first_gate_witness:
  \<open>(let cfg = Some \<lparr>cfg_hooks = None, cfg_rateLimit = None,
                    cfg_queue = Some \<lparr>qc_concurrency = Some 1, qc_timeout = None, qc_maxSize = None\<rparr>,
                    cfg_allowlist = None, cfg_blocklist = Some [''files.delete'', ''chat.**'']\<rparr>;
        sh = fst (createInitialState cfg);
        state = snd (createInitialState cfg)
    in isBlocked state ''chat.completions.create''
       \<and> executeWithHooks sh state (\<lambda>a. Returns (Str ''chat-completion'')) [] ''chat.completions.create'' 0
         = (Rejected (ErrorObj ''Method "chat.completions.create" is blocked''), sh))\<close>
proof -
  define cfg where \<open>cfg = Some \<lparr>cfg_hooks = None, cfg_rateLimit = None,
                    cfg_queue = Some \<lparr>qc_concurrency = Some 1, qc_timeout = None, qc_maxSize = None\<rparr>,
                    cfg_allowlist = None, cfg_blocklist = Some [''files.delete'', ''chat.**'']\<rparr>\<close>
  have blocked: "isBlocked (snd (createInitialState cfg)) ''chat.completions.create''"
    by (simp add: cfg_def isBlocked_def blocklistOf_def createInitialState_def
        matchesAnyPattern_def matchPattern_def patternToRegex_def part_rx_def line_terminator_def)
  from access_control_first_gate [of "snd (createInitialState cfg)" "''chat.completions.create''"
      "fst (createInitialState cfg)" "\<lambda>a. Returns (Str ''chat-completion'')" "[]" 0] blocked
  show ?thesis unfolding cfg_def Let_def by simp
qed

section \<open>The admission step of the queue\<close>

lemma sortByPriority_precedes: "sortByPriority a b \<le> 0 \<longleftrightarrow> precedes a b"
  by (auto simp: sortByPriority_def precedes_def Let_def)

lemma precedes_total: "\<not> precedes a b \<Longrightarrow> precedes b a"
  by (auto simp: precedes_def)

lemma precedes_trans: "precedes a b \<Longrightarrow> precedes b c \<Longrightarrow> precedes a c"
  by (auto simp: precedes_def)

lemma mset_insert_by: "mset (insert_by cmp x xs) = add_mset x (mset xs)"
  by (induction xs) simp_all

lemma mset_sort_by: "mset (sort_by cmp xs) = mset xs"
  by (induction xs) (simp_all add: sort_by_def mset_insert_by)

lemma set_insert_by: "set (insert_by cmp x xs) = insert x (set xs)"
  by (induction xs) auto

lemma sorted_insert_by:
  "sorted_wrt precedes xs \<Longrightarrow> sorted_wrt precedes (insert_by sortByPriority x xs)"
proof (induction xs)
  case Nil
  then show ?case by simp
next
  case (Cons y ys)
  show ?case
  proof (cases "sortByPriority x y \<le> 0")
    case True
    then have xy: "precedes x y" by (simp add: sortByPriority_precedes)
    with Cons.prems show ?thesis using True by (auto intro: precedes_trans)
  next
    case False
    then have yx: "precedes y x" using precedes_total sortByPriority_precedes by blast
    with Cons show ?thesis using False by (auto simp: set_insert_by)
  qed
qed

lemma sorted_sort_by: "sorted_wrt precedes (sort_by sortByPriority xs)"
  by (induction xs) (simp_all add: sort_by_def sorted_insert_by)

lemma processNext_idle: "\<not> canProcessNext state \<Longrightarrow> processNext state = (state, None)"
  by (simp add: processNext_def)

lemma processNext_dispatch:
  assumes "canProcessNext state"
  shows "\<exists>request rest.
           processNext state = (state\<lparr>queue := rest, running := running state + 1\<rparr>, Some request)
           \<and> mset (request # rest) = mset (queue state)
           \<and> sorted_wrt precedes (request # rest)"
proof -
  from assms have ne: "queue state \<noteq> []" by (auto simp: canProcessNext_def split: if_splits)
  then have "sort_by sortByPriority (queue state) \<noteq> []"
    using mset_sort_by [of sortByPriority "queue state"] by (metis mset_zero_iff)
  then obtain request rest where s: "sort_by sortByPriority (queue state) = request # rest"
    by (cases "sort_by sortByPriority (queue state)") auto
  have "processNext state = (state\<lparr>queue := rest, running := running state + 1\<rparr>, Some request)"
    using assms s by (simp add: processNext_def)
  moreover have "mset (request # rest) = mset (queue state)"
    using mset_sort_by [of sortByPriority "queue state"] s by simp
  moreover have "sorted_wrt precedes (request # rest)"
    using sorted_sort_by [of "queue state"] s by simp
  ultimately show ?thesis by blast
qed

lemma noIdleSlot_enqueue: "noIdleSlot s \<Longrightarrow> noIdleSlot (snd (enqueue s opts))"
  by (auto simp: noIdleSlot_def enqueue_def processNext_def canProcessNext_def belowConcurrency_def sort_by_def Let_def split: option.splits list.splits prod.splits if_splits)
lemma noIdleSlot_settle: "noIdleSlot s \<Longrightarrow> noIdleSlot (fst (settle s))"
  by (auto simp: noIdleSlot_def settle_def processNext_def canProcessNext_def belowConcurrency_def sort_by_def Let_def split: option.splits list.splits prod.splits if_splits)

text \<open>
  Claim C3, as amended. Each trigger (an enqueue, a settle, a resume) runs the admission
  step once, not in a loop. When the queue is not paused, fewer requests run than the
  configured concurrency and the queue is not empty, the step sorts the queue by
  priority rank and then arrival id, removes the head, increments the running count and
  begins executing the head; otherwise it changes nothing. Enqueue and settle keep the
  property that an unpaused queue with a free slot is empty.
\<close>

theorem admission_step_dispatches_once:
  "(\<not> canProcessNext state \<longrightarrow> processNext state = (state, None))
   \<and> (canProcessNext state \<longrightarrow>
        (\<exists>request rest.
           processNext state = (state\<lparr>queue := rest, running := running state + 1\<rparr>, Some request)
           \<and> mset (request # rest) = mset (queue state)
           \<and> sorted_wrt precedes (request # rest)))
   \<and> (noIdleSlot state \<longrightarrow> noIdleSlot (snd (enqueue state options)))
   \<and> (noIdleSlot state \<longrightarrow> noIdleSlot (fst (settle state)))"
  using processNext_idle processNext_dispatch noIdleSlot_enqueue noIdleSlot_settle by blast

text \<open>
  The claim as stated fails after a resume: of four requests queued while paused, with
  concurrency 2, the resume begins only the critical one; the queue is then not paused,
  one request runs, and three wait.
\<close>

theorem resume_leaves_idle_slot:
  "\<not> paused (fst (resumeQueue pausedQueue))
   \<and> running (fst (resumeQueue pausedQueue)) = 1
   \<and> belowConcurrency (fst (resumeQueue pausedQueue))
   \<and> map rq_id (queue (fst (resumeQueue pausedQueue))) = [2, 0, 1]
   \<and> \<not> noIdleSlot (fst (resumeQueue pausedQueue))"
  by (simp add: queue_defs)

theorem admission_step_dispatches_once_witness:
  "canProcessNext (fst (resumeQueue pausedQueue))
   \<and> (\<exists>request rest.
         processNext (fst (resumeQueue pausedQueue)) =
           ((fst (resumeQueue pausedQueue))\<lparr>queue := rest,
              running := running (fst (resumeQueue pausedQueue)) + 1\<rparr>, Some request)
         \<and> mset (request # rest) = mset (queue (fst (resumeQueue pausedQueue)))
         \<and> sorted_wrt precedes (request # rest))
   \<and> noIdleSlot (exampleEnqueue Normal exampleQueue)
   \<and> noIdleSlot (snd (enqueue (exampleEnqueue Normal exampleQueue)
        \<lparr>eo_methodPath = ''fast'', eo_priority = Low, eo_execute = ()\<rparr>))
   \<and> noIdleSlot (fst (settle (exampleEnqueue Normal exampleQueue)))"
proof -
  have c: "canProcessNext (fst (resumeQueue pausedQueue))"
    by (simp add: queue_defs)
  have n: "noIdleSlot (exampleEnqueue Normal exampleQueue)"
    by (simp add: queue_defs)
  from c n
    admission_step_dispatches_once [of "fst (resumeQueue pausedQueue)"]
    admission_step_dispatches_once [of "exampleEnqueue Normal exampleQueue"
      "\<lparr>eo_methodPath = ''fast'', eo_priority = Low, eo_execute = ()\<rparr>"]
  show ?thesis by blast
qed

section \<open>Acquiring from the rate limiter\<close>

text \<open>
  Claim C7, as amended. (a) When a truthy (non-zero) concurrency cap is configured for
  the path and the in-flight count is at or above it, the attempt is denied with a delay
  of 50 ms and the state is unchanged. (b) Otherwise the bucket of the path (the stored
  one, or a new full one) is refilled to
  \<open>min(maxTokens, tokens + elapsedMs * tokensPerMs)\<close>; if that is at least 1, one
  token is taken, the in-flight count goes up by one and the attempt is admitted with
  delay 0. (c) Otherwise the attempt is denied with delay
  \<open>ceil((1 - tokens) / tokensPerMs)\<close>, and no counter changes.
\<close>

theorem tryAcquire_cases:
  "(concurrencyReached state p \<longrightarrow>
      tryAcquire state p now = (\<lparr>canProceed = False, delayMs = Fin 50\<rparr>, state))
   \<and> (\<not> concurrencyReached state p \<longrightarrow>
      (let bucket0 = fst (getBucket state p now);
           refilled = jmin (maxTokens bucket0)
                        (jadd (tokens bucket0)
                           (jmul (Fin (of_int (now - lastRefill bucket0))) (tokensPerMs bucket0)));
           (result, state') = tryAcquire state p now
       in (jle (Fin 1) refilled \<longrightarrow>
             result = \<lparr>canProceed = True, delayMs = Fin 0\<rparr>
             \<and> currentCount state' p = currentCount state p + 1
             \<and> (getConfigForMethod (rl_config state) p \<noteq> None \<longrightarrow>
                  buckets state' p =
                    Some (bucket0\<lparr>tokens := jsub refilled (Fin 1), lastRefill := now\<rparr>)))
          \<and> (\<not> jle (Fin 1) refilled \<longrightarrow>
             result = \<lparr>canProceed = False,
                        delayMs = jceil (jdiv (jsub (Fin 1) refilled) (tokensPerMs bucket0))\<rparr>
             \<and> concurrentCount state' = concurrentCount state
             \<and> (getConfigForMethod (rl_config state) p \<noteq> None \<longrightarrow>
                  buckets state' p = Some (bucket0\<lparr>tokens := refilled, lastRefill := now\<rparr>)))))"
  by (auto simp: tryAcquire_def getBucket_def refillBucket_def putBucket_def
      incrementConcurrent_def currentCount_def Let_def split: option.splits prod.splits)

text \<open>
  The claim as stated fails for a configured cap of 0: the in-flight count 0 is at the
  cap, and the attempt is admitted.
\<close>

theorem zero_cap_admits:
  "getConfigForMethod (rl_config zeroCapLimiter) ''fast'' = Some zeroCapConfig
   \<and> cfg_concurrency zeroCapConfig = Some (Fin 0)
   \<and> jle (Fin 0) (Fin (real (currentCount zeroCapLimiter ''fast'')))
   \<and> fst (tryAcquire zeroCapLimiter ''fast'' 0) = \<lparr>canProceed = True, delayMs = Fin 0\<rparr>"
  by (simp add: limiter_defs)

theorem tryAcquire_cases_witness:
  "concurrencyReached busyLimiter ''slow''
   \<and> tryAcquire busyLimiter ''slow'' 5 = (\<lparr>canProceed = False, delayMs = Fin 50\<rparr>, busyLimiter)
   \<and> \<not> concurrencyReached drainedLimiter ''fast''
   \<and> fst (tryAcquire drainedLimiter ''fast'' 0) = \<lparr>canProceed = False, delayMs = Fin 500\<rparr>
   \<and> fst (tryAcquire drainedLimiter ''fast'' 500) = \<lparr>canProceed = True, delayMs = Fin 0\<rparr>"
proof -
  have a: "concurrencyReached busyLimiter ''slow''" by (simp add: limiter_defs)
  have b: "\<not> concurrencyReached drainedLimiter ''fast''" by (simp add: limiter_defs)
  have c: "fst (getBucket drainedLimiter ''fast'' 0) =
             \<lparr>tokens = Fin 0, lastRefill = 0, tokensPerMs = Fin (1 / 500), maxTokens = Fin 2\<rparr>"
    by (simp add: limiter_defs)
  have d: "fst (getBucket drainedLimiter ''fast'' 500) =
             \<lparr>tokens = Fin 0, lastRefill = 0, tokensPerMs = Fin (1 / 500), maxTokens = Fin 2\<rparr>"
    by (simp add: limiter_defs)
  from a b tryAcquire_cases [of busyLimiter "''slow''" 5]
    tryAcquire_cases [of drainedLimiter "''fast''" 0]
    tryAcquire_cases [of drainedLimiter "''fast''" 500]
  show ?thesis
    by (simp add: c d jmin_def jsub_def Let_def split: prod.splits)
qed

text \<open>
  The bounds of a bucket on the finite path: a bucket created for a finite positive rate
  is within bounds, and a refill at a time not before the last one and the taking of a
  token keep it there.
\<close>

lemma createBucket_in_bounds:
  assumes "getRequestsPerSecond c = Fin r" and "0 < r"
  shows "bucketInBounds (createBucket c now)"
proof -
  have "createBucket c now =
          \<lparr>tokens = Fin (max 1 (of_int \<lceil>r\<rceil>)), lastRefill = now, tokensPerMs = Fin (r / 1000),
           maxTokens = Fin (max 1 (of_int \<lceil>r\<rceil>))\<rparr>"
    using assms by (simp add: createBucket_def jmax_def Let_def max_def)
  moreover have "0 \<le> max 1 (real_of_int \<lceil>r\<rceil>)" and "0 \<le> r / 1000"
    using assms by simp_all
  ultimately show ?thesis
    unfolding bucketInBounds_def
    by (intro exI [of _ "max 1 (real_of_int \<lceil>r\<rceil>)"] exI [of _ "r / 1000"]) simp
qed

lemma refillBucket_in_bounds:
  "bucketInBounds b \<Longrightarrow> lastRefill b \<le> now \<Longrightarrow> bucketInBounds (refillBucket b now)"
  by (auto simp: bucketInBounds_def refillBucket_def jmin_def Let_def)

lemma take_token_in_bounds:
  "bucketInBounds b \<Longrightarrow> jle (Fin 1) (tokens b) \<Longrightarrow>
     bucketInBounds (b\<lparr>tokens := jsub (tokens b) (Fin 1)\<rparr>)"
  by (auto simp: bucketInBounds_def jsub_def)

text \<open>
  Claim C8 says that the tokens of a bucket stay between 0 and \<open>maxTokens\<close>. The code
  at a rate limiter configured with a concurrency cap and no rate: the bucket is created
  with infinitely many tokens at an infinite rate, the refill in the same millisecond
  multiplies 0 by infinity, and the tokens are NaN, of which neither bound holds. The
  attempt is denied with delay NaN, and so is every later one.
\<close>

theorem infinite_rate_bucket_is_NaN:
  "fst (tryAcquire capOnlyLimiter ''fast'' 0) = \<lparr>canProceed = False, delayMs = NaN\<rparr>
   \<and> buckets (snd (tryAcquire capOnlyLimiter ''fast'' 0)) ''fast'' =
       Some \<lparr>tokens = NaN, lastRefill = 0, tokensPerMs = PInf, maxTokens = PInf\<rparr>
   \<and> \<not> jle (Fin 0) NaN \<and> \<not> jle NaN PInf
   \<and> fst (tryAcquire (snd (tryAcquire capOnlyLimiter ''fast'' 0)) ''fast'' 1000) =
       \<lparr>canProceed = False, delayMs = NaN\<rparr>"
  by (simp add: limiter_defs)

section \<open>The order of hooks and plugins\<close>

lemma returns_iff: "returns c \<longleftrightarrow> (\<exists>v. c = Returns v)"
  by (cases c) simp_all

lemma runBeforeHook_returns:
  assumes "beforeHookReturns hooks p args"
  shows "runBeforeHook hooks p args =
           (Returns (finalArgsOf hooks p args), globalBeforeCall hooks p args)"
proof (cases hooks)
  case None
  then show ?thesis by (simp add: finalArgsOf_def globalBeforeCall_def)
next
  case (Some h)
  show ?thesis
  proof (cases "h_before h")
    case None
    with Some show ?thesis by (simp add: finalArgsOf_def globalBeforeCall_def)
  next
    case hook: (Some hook)
    with assms Some obtain r where "hook p args = Returns r"
      by (auto simp: beforeHookReturns_def returns_iff)
    with Some hook show ?thesis
      by (cases r) (simp_all add: finalArgsOf_def globalBeforeCall_def)
  qed
qed

lemma runAfterHook_returns:
  assumes "afterHookReturns hooks p result"
  shows "\<exists>final. runAfterHook hooks p result =
           (Returns final, globalAfterCall hooks p result)"
proof (cases hooks)
  case None
  then show ?thesis by (simp add: globalAfterCall_def)
next
  case (Some h)
  show ?thesis
  proof (cases "h_after h")
    case None
    with Some show ?thesis by (simp add: globalAfterCall_def)
  next
    case hook: (Some hook)
    with assms Some obtain r where "hook p result = Returns r"
      by (auto simp: afterHookReturns_def returns_iff)
    with Some hook show ?thesis by (simp add: globalAfterCall_def)
  qed
qed

lemma runPluginsBefore_returns:
  "list_all (pluginBeforeReturns ctx) pls \<Longrightarrow>
     runPluginsBefore pls ctx =
       (Returns (map (\<lambda>pl. \<lparr>pe_plugin = pl, pe_context = ownContext pl ctx\<rparr>) pls),
        beforeCalls pls ctx)"
proof (induction pls)
  case Nil
  show ?case by (simp add: beforeCalls_def)
next
  case (Cons pl pls)
  then have IH: "runPluginsBefore pls ctx =
       (Returns (map (\<lambda>pl. \<lparr>pe_plugin = pl, pe_context = ownContext pl ctx\<rparr>) pls),
        beforeCalls pls ctx)" by simp
  from Cons.prems have q: "pluginBeforeReturns ctx pl" by simp
  show ?case
  proof (cases "p_before pl")
    case None
    then show ?thesis using IH by (simp add: beforeCalls_def ownContext_def)
  next
    case (Some hook)
    with q obtain v where v: "hook ctx = Returns v"
      by (auto simp: pluginBeforeReturns_def returns_iff)
    with Some IH show ?thesis by (simp add: beforeCalls_def ownContext_def)
  qed
qed

lemma afterLoop_returns:
  "list_all (\<lambda>ex. case p_after (pe_plugin ex) of None \<Rightarrow> True
                   | Some hook \<Rightarrow> returns (hook actx (pe_context ex))) exs \<Longrightarrow>
     afterLoop exs actx =
       (Returns (),
        map (\<lambda>ex. CallPluginAfter (p_name (pe_plugin ex)) actx (pe_context ex))
          (filter (\<lambda>ex. p_after (pe_plugin ex) \<noteq> None) exs))"
proof (induction exs)
  case Nil
  show ?case by simp
next
  case (Cons ex exs)
  then have IH: "afterLoop exs actx =
       (Returns (),
        map (\<lambda>ex. CallPluginAfter (p_name (pe_plugin ex)) actx (pe_context ex))
          (filter (\<lambda>ex. p_after (pe_plugin ex) \<noteq> None) exs))" by simp
  show ?case
  proof (cases "p_after (pe_plugin ex)")
    case None
    then show ?thesis using IH by simp
  next
    case (Some hook)
    with Cons.prems obtain v where "hook actx (pe_context ex) = Returns v"
      by (auto simp: returns_iff)
    with Some IH show ?thesis by simp
  qed
qed

lemma onErrorLoop_returns:
  "list_all (\<lambda>ex. case p_onError (pe_plugin ex) of None \<Rightarrow> True
                   | Some hook \<Rightarrow> returns (hook ctx (pe_context ex) error)) exs \<Longrightarrow>
     onErrorLoop exs ctx error =
       (Returns (),
        map (\<lambda>ex. CallPluginOnError (p_name (pe_plugin ex)) ctx (pe_context ex) error)
          (filter (\<lambda>ex. p_onError (pe_plugin ex) \<noteq> None) exs))"
proof (induction exs)
  case Nil
  show ?case by simp
next
  case (Cons ex exs)
  then have IH: "onErrorLoop exs ctx error =
       (Returns (),
        map (\<lambda>ex. CallPluginOnError (p_name (pe_plugin ex)) ctx (pe_context ex) error)
          (filter (\<lambda>ex. p_onError (pe_plugin ex) \<noteq> None) exs))" by simp
  show ?case
  proof (cases "p_onError (pe_plugin ex)")
    case None
    then show ?thesis using IH by simp
  next
    case (Some hook)
    with Cons.prems obtain v where "hook ctx (pe_context ex) error = Returns v"
      by (auto simp: returns_iff)
    with Some IH show ?thesis by simp
  qed
qed

lemma runPluginsAfter_returns:
  assumes "list_all (pluginAfterReturns ctx result) pls"
  shows "runPluginsAfter (map (\<lambda>pl. \<lparr>pe_plugin = pl, pe_context = ownContext pl ctx\<rparr>) pls)
           (ctx\<lparr>pc_result := Some result\<rparr>) = (Returns (), afterCalls pls ctx result)"
proof -
  have "list_all (\<lambda>ex. case p_after (pe_plugin ex) of None \<Rightarrow> True
                   | Some hook \<Rightarrow> returns (hook (ctx\<lparr>pc_result := Some result\<rparr>) (pe_context ex)))
          (rev (map (\<lambda>pl. \<lparr>pe_plugin = pl, pe_context = ownContext pl ctx\<rparr>) pls))"
    using assms by (auto simp: list_all_iff pluginAfterReturns_def split: option.splits)
  from afterLoop_returns [OF this] show ?thesis
    by (simp add: runPluginsAfter_def afterCalls_def rev_map [symmetric]
        filter_map comp_def rev_filter [symmetric])
qed

lemma runPluginsOnError_returns:
  assumes "list_all (pluginOnErrorReturns ctx error) pls"
  shows "runPluginsOnError (map (\<lambda>pl. \<lparr>pe_plugin = pl, pe_context = ownContext pl ctx\<rparr>) pls)
           ctx error = (Returns (), onErrorCalls pls ctx error)"
proof -
  have "list_all (\<lambda>ex. case p_onError (pe_plugin ex) of None \<Rightarrow> True
                   | Some hook \<Rightarrow> returns (hook ctx (pe_context ex) error))
          (rev (map (\<lambda>pl. \<lparr>pe_plugin = pl, pe_context = ownContext pl ctx\<rparr>) pls))"
    using assms by (auto simp: list_all_iff pluginOnErrorReturns_def split: option.splits)
  from onErrorLoop_returns [OF this] show ?thesis
    by (simp add: runPluginsOnError_def onErrorCalls_def rev_map [symmetric]
        filter_map comp_def rev_filter [symmetric])
qed

lemma handleError_calls:
  "instanceofError error \<Longrightarrow>
     handleError hooks p retried error =
       ((case onErrorHook hooks of None \<Rightarrow> Throws error | Some hook \<Rightarrow> hook p error retried),
        globalOnErrorCall hooks p error)"
  by (simp add: handleError_def globalOnErrorCall_def split: option.splits)

lemma handleError_other:
  "\<not> instanceofError error \<Longrightarrow> handleError hooks p retried error = (Throws error, [])"
  by (simp add: handleError_def split: option.splits)

text \<open>The pipeline up to the call of the wrapped function.\<close>

lemma runPipeline_before:
  assumes b: "beforeHookReturns hooks p args"
    and pb: "list_all (pluginBeforeReturns (contextOf hooks p args)) pls"
  shows "runPipeline fn hooks pls p args =
           (case runMethodWithPlugins fn hooks p (finalArgsOf hooks p args)
                   (map (\<lambda>pl. \<lparr>pe_plugin = pl,
                                pe_context = ownContext pl (contextOf hooks p args)\<rparr>) pls) of
              (r, calls) \<Rightarrow>
                (r, globalBeforeCall hooks p args @ beforeCalls pls (contextOf hooks p args) @ calls))"
  using runBeforeHook_returns [OF b] runPluginsBefore_returns [OF pb]
  by (simp add: runPipeline_def contextOf_def)

lemma runPipeline_returns:
  assumes b: "beforeHookReturns hooks p args"
    and pb: "list_all (pluginBeforeReturns (contextOf hooks p args)) pls"
    and r: "fn (finalArgsOf hooks p args) = Returns result"
    and pa: "list_all (pluginAfterReturns (contextOf hooks p args) result) pls"
    and a: "afterHookReturns hooks p result"
  shows "\<exists>final. runPipeline fn hooks pls p args =
           (Returns final,
            globalBeforeCall hooks p args @ beforeCalls pls (contextOf hooks p args)
            @ [CallMethod (finalArgsOf hooks p args)]
            @ afterCalls pls (contextOf hooks p args) result @ globalAfterCall hooks p result)"
proof -
  obtain final where f: "runAfterHook hooks p result = (Returns final, globalAfterCall hooks p result)"
    using runAfterHook_returns [OF a] by blast
  have actx: "\<lparr>pc_method = p, pc_args = finalArgsOf hooks p args, pc_result = Some result\<rparr>
      = (contextOf hooks p args)\<lparr>pc_result := Some result\<rparr>"
    by (simp add: contextOf_def)
  have "runPipeline fn hooks pls p args =
           (Returns final,
            globalBeforeCall hooks p args @ beforeCalls pls (contextOf hooks p args)
            @ [CallMethod (finalArgsOf hooks p args)]
            @ afterCalls pls (contextOf hooks p args) result @ globalAfterCall hooks p result)"
    using r f runPluginsAfter_returns [OF pa]
    by (simp add: runPipeline_before [OF b pb] runMethodWithPlugins_def actx)
  then show ?thesis by blast
qed

lemma runPipeline_throws_Error:
  assumes b: "beforeHookReturns hooks p args"
    and pb: "list_all (pluginBeforeReturns (contextOf hooks p args)) pls"
    and r: "fn (finalArgsOf hooks p args) = Throws error"
    and e: "instanceofError error"
    and pe: "list_all (pluginOnErrorReturns (contextOf hooks p args) error) pls"
  shows "runPipeline fn hooks pls p args =
           ((case onErrorHook hooks of None \<Rightarrow> Throws error
             | Some hook \<Rightarrow> hook p error (Throws error)),
            globalBeforeCall hooks p args @ beforeCalls pls (contextOf hooks p args)
            @ [CallMethod (finalArgsOf hooks p args)]
            @ onErrorCalls pls (contextOf hooks p args) error @ globalOnErrorCall hooks p error)"
  using r e runPluginsOnError_returns [OF pe] handleError_calls [OF e, of hooks p "Throws error"]
  by (simp add: runPipeline_before [OF b pb] runMethodWithPlugins_def catchBlock_def
      contextOf_def [symmetric])

lemma runPipeline_throws_other:
  assumes b: "beforeHookReturns hooks p args"
    and pb: "list_all (pluginBeforeReturns (contextOf hooks p args)) pls"
    and r: "fn (finalArgsOf hooks p args) = Throws error"
    and e: "\<not> instanceofError error"
  shows "runPipeline fn hooks pls p args =
           (Throws error,
            globalBeforeCall hooks p args @ beforeCalls pls (contextOf hooks p args)
            @ [CallMethod (finalArgsOf hooks p args)])"
  using r e handleError_other [OF e, of hooks p "Throws error"]
  by (simp add: runPipeline_before [OF b pb] runMethodWithPlugins_def catchBlock_def)

text \<open>
  Claim C6, as amended. For every call through a wrapper with plugins \<open>p1..pn\<close> in
  which no plugin hook and neither the global \<open>before\<close> nor the global \<open>after\<close> hook
  throws: the global \<open>before\<close> hook runs first, then the plugins' \<open>before\<close> hooks in
  registration order, then the wrapped function; when it returns, the plugins' \<open>after\<close>
  hooks run in reverse registration order followed by the global \<open>after\<close> hook; when
  it throws an instance of \<open>Error\<close>, the plugins' \<open>onError\<close> hooks run in reverse
  registration order followed by the global \<open>onError\<close> hook; when it throws any other
  value, no \<open>onError\<close> hook runs. Each \<open>after\<close> or \<open>onError\<close> call of a plugin
  receives the value that plugin's own \<open>before\<close> hook returned (\<open>undefined\<close> without
  one).

  The hypothesis \<open>noHookThrows\<close> speaks of this call only: of the hooks that the call
  runs, each at the arguments the call passes to it. A plugin whose \<open>before\<close> hook
  throws for another method, or whose \<open>onError\<close> hook rethrows, is covered on a call
  that does not reach the throwing branch.
\<close>

theorem plugin_onion_order:
  assumes "noHookThrows fn hooks pls p args"
  shows "snd (runPipeline fn hooks pls p args) =
           globalBeforeCall hooks p args
           @ beforeCalls pls (contextOf hooks p args)
           @ [CallMethod (finalArgsOf hooks p args)]
           @ (case fn (finalArgsOf hooks p args) of
                Returns result \<Rightarrow>
                  afterCalls pls (contextOf hooks p args) result
                  @ globalAfterCall hooks p result
              | Throws error \<Rightarrow>
                  if instanceofError error
                  then onErrorCalls pls (contextOf hooks p args) error
                       @ globalOnErrorCall hooks p error
                  else [])"
proof -
  from assms have b: "beforeHookReturns hooks p args"
    and pb: "list_all (pluginBeforeReturns (contextOf hooks p args)) pls"
    by (simp_all add: noHookThrows_def)
  show ?thesis
  proof (cases "fn (finalArgsOf hooks p args)")
    case (Returns result)
    with assms have pa: "list_all (pluginAfterReturns (contextOf hooks p args) result) pls"
      and a: "afterHookReturns hooks p result"
      by (simp_all add: noHookThrows_def)
    from runPipeline_returns [where fn = fn, OF b pb Returns pa a] Returns
    show ?thesis by auto
  next
    case (Throws error)
    show ?thesis
    proof (cases "instanceofError error")
      case True
      with assms Throws
      have pe: "list_all (pluginOnErrorReturns (contextOf hooks p args) error) pls"
        by (simp add: noHookThrows_def)
      from runPipeline_throws_Error [where fn = fn, OF b pb Throws True pe] Throws True
      show ?thesis by simp
    next
      case False
      from runPipeline_throws_other [where fn = fn, OF b pb Throws False] Throws False
      show ?thesis by simp
    qed
  qed
qed

text \<open>
  The claim as stated fails in two ways. A wrapped function that throws a string is a
  failing call after which no \<open>onError\<close> hook runs. And on a call whose wrapped
  function succeeds, an \<open>after\<close> hook that throws (here the one of the second plugin)
  ends the \<open>after\<close> hooks before the first plugin's, and the \<open>onError\<close> hooks of all
  three plugins run.
\<close>

theorem onError_hooks_skipped:
  "runPipeline failingWithString None threePlugins ''failing'' [] =
     (Throws (Str ''intentional error''),
      [CallPluginBefore ''1'' \<lparr>pc_method = ''failing'', pc_args = [], pc_result = None\<rparr>,
       CallPluginBefore ''2'' \<lparr>pc_method = ''failing'', pc_args = [], pc_result = None\<rparr>,
       CallPluginBefore ''3'' \<lparr>pc_method = ''failing'', pc_args = [], pc_result = None\<rparr>,
       CallMethod []])
   \<and> runPipeline succeeding None
        [namedPlugin ''1'', throwingAfterPlugin ''2'', namedPlugin ''3''] ''doSomething'' [] =
     (Throws (ErrorObj ''after failed''),
      [CallPluginBefore ''1'' \<lparr>pc_method = ''doSomething'', pc_args = [], pc_result = None\<rparr>,
       CallPluginBefore ''2'' \<lparr>pc_method = ''doSomething'', pc_args = [], pc_result = None\<rparr>,
       CallPluginBefore ''3'' \<lparr>pc_method = ''doSomething'', pc_args = [], pc_result = None\<rparr>,
       CallMethod [],
       CallPluginAfter ''3''
         \<lparr>pc_method = ''doSomething'', pc_args = [], pc_result = Some (Str ''result'')\<rparr> (Str ''3''),
       CallPluginAfter ''2''
         \<lparr>pc_method = ''doSomething'', pc_args = [], pc_result = Some (Str ''result'')\<rparr> (Str ''2''),
       CallPluginOnError ''3'' \<lparr>pc_method = ''doSomething'', pc_args = [], pc_result = None\<rparr>
         (Str ''3'') (ErrorObj ''after failed''),
       CallPluginOnError ''2'' \<lparr>pc_method = ''doSomething'', pc_args = [], pc_result = None\<rparr>
         (Str ''2'') (ErrorObj ''after failed''),
       CallPluginOnError ''1'' \<lparr>pc_method = ''doSomething'', pc_args = [], pc_result = None\<rparr>
         (Str ''1'') (ErrorObj ''after failed'')])"
  by (simp add: hook_defs)

theorem plugin_onion_order_witness:
  "noHookThrows succeeding None
     [namedPlugin ''1'', rethrowingPlugin ''2'', pickyPlugin ''3''] ''doSomething'' [Str ''test'']
   \<and> snd (runPipeline succeeding None
            [namedPlugin ''1'', rethrowingPlugin ''2'', pickyPlugin ''3''] ''doSomething''
            [Str ''test'']) =
     [CallPluginBefore ''1'' \<lparr>pc_method = ''doSomething'', pc_args = [Str ''test''], pc_result = None\<rparr>,
      CallPluginBefore ''2'' \<lparr>pc_method = ''doSomething'', pc_args = [Str ''test''], pc_result = None\<rparr>,
      CallPluginBefore ''3'' \<lparr>pc_method = ''doSomething'', pc_args = [Str ''test''], pc_result = None\<rparr>,
      CallMethod [Str ''test''],
      CallPluginAfter ''3''
        \<lparr>pc_method = ''doSomething'', pc_args = [Str ''test''], pc_result = Some (Str ''result'')\<rparr>
        (Str ''3''),
      CallPluginAfter ''2''
        \<lparr>pc_method = ''doSomething'', pc_args = [Str ''test''], pc_result = Some (Str ''result'')\<rparr>
        (Str ''2''),
      CallPluginAfter ''1''
        \<lparr>pc_method = ''doSomething'', pc_args = [Str ''test''], pc_result = Some (Str ''result'')\<rparr>
        (Str ''1'')]
   \<and> noHookThrows failing None
       [namedPlugin ''1'', throwingAfterPlugin ''2'', namedPlugin ''3''] ''failing'' []
   \<and> snd (runPipeline failing None
            [namedPlugin ''1'', throwingAfterPlugin ''2'', namedPlugin ''3''] ''failing'' []) =
     [CallPluginBefore ''1'' \<lparr>pc_method = ''failing'', pc_args = [], pc_result = None\<rparr>,
      CallPluginBefore ''2'' \<lparr>pc_method = ''failing'', pc_args = [], pc_result = None\<rparr>,
      CallPluginBefore ''3'' \<lparr>pc_method = ''failing'', pc_args = [], pc_result = None\<rparr>,
      CallMethod [],
      CallPluginOnError ''3'' \<lparr>pc_method = ''failing'', pc_args = [], pc_result = None\<rparr>
        (Str ''3'') (ErrorObj ''intentional error''),
      CallPluginOnError ''2'' \<lparr>pc_method = ''failing'', pc_args = [], pc_result = None\<rparr>
        (Str ''2'') (ErrorObj ''intentional error''),
      CallPluginOnError ''1'' \<lparr>pc_method = ''failing'', pc_args = [], pc_result = None\<rparr>
        (Str ''1'') (ErrorObj ''intentional error'')]"
proof -
  have s: "noHookThrows succeeding None
     [namedPlugin ''1'', rethrowingPlugin ''2'', pickyPlugin ''3''] ''doSomething'' [Str ''test'']"
    by (simp add: order_defs namedPlugin_def rethrowingPlugin_def pickyPlugin_def succeeding_def)
  have f: "noHookThrows failing None
       [namedPlugin ''1'', throwingAfterPlugin ''2'', namedPlugin ''3''] ''failing'' []"
    by (simp add: order_defs namedPlugin_def throwingAfterPlugin_def failing_def)
  from s f plugin_onion_order [OF s] plugin_onion_order [OF f]
  show ?thesis
    by (simp add: order_defs namedPlugin_def rethrowingPlugin_def pickyPlugin_def
        throwingAfterPlugin_def succeeding_def failing_def)
qed




section \<open>Glob patterns against their documented meaning\<close>

lemma list_ex_upt: "list_ex P [1 ..< Suc m] \<longleftrightarrow> (\<exists>n. 1 \<le> n \<and> n \<le> m \<and> P n)"
  unfolding list_ex_iff set_upt by (auto simp del: One_nat_def)

lemma rx_test_AnyPlus:
  "rx_test (AnyPlus # rs) s \<longleftrightarrow>
     (\<exists>n. 1 \<le> n \<and> n \<le> length s \<and> list_all (\<lambda>c. \<not> line_terminator c) (take n s)
          \<and> rx_test rs (drop n s))"
  unfolding rx_test.simps list_ex_upt by (rule refl)

lemma rx_test_NotDotPlus:
  "rx_test (NotDotPlus # rs) s \<longleftrightarrow>
     (\<exists>n. 1 \<le> n \<and> n \<le> length s \<and> list_all (\<lambda>c. c \<noteq> CHR ''.'') (take n s)
          \<and> rx_test rs (drop n s))"
  unfolding rx_test.simps list_ex_upt by (rule refl)

lemma plus_pieces:
  "(\<exists>n. 1 \<le> n \<and> n \<le> length s \<and> list_all P (take n s) \<and> Q (drop n s)) \<longleftrightarrow>
   (\<exists>u v. s = u @ v \<and> u \<noteq> [] \<and> list_all P u \<and> Q v)"
proof
  assume "\<exists>n. 1 \<le> n \<and> n \<le> length s \<and> list_all P (take n s) \<and> Q (drop n s)"
  then obtain n where n: "1 \<le> n" "n \<le> length s" "list_all P (take n s)" "Q (drop n s)"
    by blast
  then have "s = take n s @ drop n s \<and> take n s \<noteq> [] \<and> list_all P (take n s) \<and> Q (drop n s)"
    by auto
  then show "\<exists>u v. s = u @ v \<and> u \<noteq> [] \<and> list_all P u \<and> Q v" by blast
next
  assume "\<exists>u v. s = u @ v \<and> u \<noteq> [] \<and> list_all P u \<and> Q v"
  then obtain u v where uv: "s = u @ v" "u \<noteq> []" "list_all P u" "Q v" by blast
  then have "1 \<le> length u \<and> length u \<le> length s \<and> list_all P (take (length u) s)
      \<and> Q (drop (length u) s)"
    by (cases u) auto
  then show "\<exists>n. 1 \<le> n \<and> n \<le> length s \<and> list_all P (take n s) \<and> Q (drop n s)" by blast
qed

lemma rx_test_Lit:
  "rx_test (Lit l # rs) s \<longleftrightarrow> (\<exists>v. s = l @ v \<and> rx_test rs v)"
proof
  assume "rx_test (Lit l # rs) s"
  then have "take (length l) s = l" "rx_test rs (drop (length l) s)" by simp_all
  then have "s = l @ drop (length l) s \<and> rx_test rs (drop (length l) s)"
    by (metis append_take_drop_id)
  then show "\<exists>v. s = l @ v \<and> rx_test rs v" by blast
next
  assume "\<exists>v. s = l @ v \<and> rx_test rs v"
  then show "rx_test (Lit l # rs) s" by auto
qed

lemma rx_test_Cons:
  "rx_test (r # rs) s \<longleftrightarrow> (\<exists>u v. s = u @ v \<and> rx_item r u \<and> rx_test rs v)"
proof (cases r)
  case (Lit l)
  then show ?thesis by (simp only: rx_test_Lit rx_item.simps) blast
next
  case AnyPlus
  then show ?thesis by (simp only: rx_test_AnyPlus rx_item.simps plus_pieces) blast
next
  case NotDotPlus
  then show ?thesis by (simp only: rx_test_NotDotPlus rx_item.simps plus_pieces) blast
qed

lemma rx_test_single: "rx_test [r] s \<longleftrightarrow> rx_item r s"
  by (simp add: rx_test_Cons)

lemma rx_test_sep:
  "rx_test (r # Lit ''.'' # rs) s \<longleftrightarrow>
     (\<exists>u w. s = u @ CHR ''.'' # w \<and> rx_item r u \<and> rx_test rs w)"
  by (subst rx_test_Cons, subst rx_test_Cons) auto

lemma split_on_nonempty: "split_on c s \<noteq> []"
  by (induction s) (auto split: list.splits)

lemma split_on_free: "seg \<in> set (split_on c s) \<Longrightarrow> c \<notin> set seg"
proof (induction s arbitrary: seg)
  case Nil
  then show ?case by simp
next
  case (Cons x xs)
  then show ?case
    by (cases "split_on c xs") (auto split: if_splits)
qed

lemma join_split: "join_dot (split_on CHR ''.'' s) = s"
proof (induction s)
  case Nil
  show ?case by simp
next
  case (Cons x xs)
  obtain w ws where w: "split_on CHR ''.'' xs = w # ws"
    using split_on_nonempty [of "CHR ''.''" xs] by (cases "split_on CHR ''.'' xs") auto
  show ?case
  proof (cases "x = CHR ''.''")
    case True
    with Cons w show ?thesis by simp
  next
    case False
    with Cons w show ?thesis by (cases ws) auto
  qed
qed

lemma join_dot_append:
  "ss1 \<noteq> [] \<Longrightarrow> ss2 \<noteq> [] \<Longrightarrow> join_dot (ss1 @ ss2) = join_dot ss1 @ CHR ''.'' # join_dot ss2"
proof (induction ss1 rule: join_dot.induct)
  case 1
  then show ?case by simp
next
  case (2 s)
  then show ?case by (cases ss2) simp_all
next
  case (3 s t ss)
  then show ?case by simp
qed

lemma dotfree_cut:
  assumes "CHR ''.'' \<notin> set s"
  shows "s @ CHR ''.'' # a = u @ CHR ''.'' # w \<longleftrightarrow>
           (u = s \<and> w = a) \<or> (\<exists>u'. u = s @ CHR ''.'' # u' \<and> a = u' @ CHR ''.'' # w)"
  using assms by (auto simp: append_eq_append_conv2 Cons_eq_append_conv append_eq_Cons_conv)

lemma join_cut:
  assumes "\<forall>seg \<in> set ss. CHR ''.'' \<notin> set seg"
  shows "join_dot ss = u @ CHR ''.'' # w \<longleftrightarrow>
           (\<exists>ss1 ss2. ss = ss1 @ ss2 \<and> ss1 \<noteq> [] \<and> ss2 \<noteq> [] \<and> join_dot ss1 = u \<and> join_dot ss2 = w)"
  using assms
proof (induction ss arbitrary: u rule: join_dot.induct)
  case 1
  then show ?case by simp
next
  case (2 s)
  then have "s \<noteq> u @ CHR ''.'' # w" by auto
  moreover have "\<not> (\<exists>ss1 ss2. [s] = ss1 @ ss2 \<and> ss1 \<noteq> [] \<and> ss2 \<noteq> [] \<and> join_dot ss1 = u \<and> join_dot ss2 = w)"
    by (auto simp: Cons_eq_append_conv)
  ultimately show ?case by simp
next
  case (3 s t ss)
  then have s: "CHR ''.'' \<notin> set s" and rest: "\<forall>seg \<in> set (t # ss). CHR ''.'' \<notin> set seg"
    by simp_all
  have IH: "\<And>u'. join_dot (t # ss) = u' @ CHR ''.'' # w \<longleftrightarrow>
           (\<exists>ss1 ss2. t # ss = ss1 @ ss2 \<and> ss1 \<noteq> [] \<and> ss2 \<noteq> [] \<and> join_dot ss1 = u' \<and> join_dot ss2 = w)"
    using "3.IH" rest by blast
  show ?case
  proof
    assume "join_dot (s # t # ss) = u @ CHR ''.'' # w"
    then have "s @ CHR ''.'' # join_dot (t # ss) = u @ CHR ''.'' # w" by simp
    then consider (first) "u = s" "w = join_dot (t # ss)"
      | (later) u' where "u = s @ CHR ''.'' # u'" "join_dot (t # ss) = u' @ CHR ''.'' # w"
      using dotfree_cut [OF s] by blast
    then show "\<exists>ss1 ss2. s # t # ss = ss1 @ ss2 \<and> ss1 \<noteq> [] \<and> ss2 \<noteq> [] \<and> join_dot ss1 = u \<and> join_dot ss2 = w"
    proof cases
      case first
      then have "s # t # ss = [s] @ (t # ss) \<and> [s] \<noteq> [] \<and> t # ss \<noteq> [] \<and> join_dot [s] = u
          \<and> join_dot (t # ss) = w" by simp
      then show ?thesis by blast
    next
      case later
      then obtain ss1 ss2 where c: "t # ss = ss1 @ ss2" "ss1 \<noteq> []" "ss2 \<noteq> []"
        "join_dot ss1 = u'" "join_dot ss2 = w" using IH by blast
      from c(2) obtain a as where a: "ss1 = a # as" by (cases ss1) auto
      have "join_dot (s # ss1) = s @ CHR ''.'' # join_dot ss1" using a by simp
      with c later have "s # t # ss = (s # ss1) @ ss2 \<and> s # ss1 \<noteq> [] \<and> ss2 \<noteq> []
          \<and> join_dot (s # ss1) = u \<and> join_dot ss2 = w" by simp
      then show ?thesis by blast
    qed
  next
    assume "\<exists>ss1 ss2. s # t # ss = ss1 @ ss2 \<and> ss1 \<noteq> [] \<and> ss2 \<noteq> [] \<and> join_dot ss1 = u \<and> join_dot ss2 = w"
    then obtain ss1 ss2 where c: "s # t # ss = ss1 @ ss2" "ss1 \<noteq> []" "ss2 \<noteq> []"
      "join_dot ss1 = u" "join_dot ss2 = w" by blast
    then show "join_dot (s # t # ss) = u @ CHR ''.'' # w"
      using join_dot_append [OF c(2) c(3)] by simp
  qed
qed

lemma join_dotfree:
  assumes "ss \<noteq> []" and "\<forall>seg \<in> set ss. CHR ''.'' \<notin> set seg"
  shows "CHR ''.'' \<notin> set (join_dot ss) \<longleftrightarrow> length ss = 1"
  using assms by (induction ss rule: join_dot.induct) auto

lemma join_nonempty: "ss \<noteq> [] \<Longrightarrow> hd ss \<noteq> [] \<Longrightarrow> join_dot ss \<noteq> []"
  by (induction ss rule: join_dot.induct) auto

lemma join_no_terminator:
  "\<forall>seg \<in> set ss. list_all (\<lambda>c. \<not> line_terminator c) seg \<Longrightarrow>
     list_all (\<lambda>c. \<not> line_terminator c) (join_dot ss)"
  by (induction ss rule: join_dot.induct) (auto simp: line_terminator_def)

lemma glob_star2:
  "glob_matches (''**'' # ps) ss \<longleftrightarrow>
     (\<exists>ss1 ss2. ss = ss1 @ ss2 \<and> ss1 \<noteq> [] \<and> glob_matches ps ss2)"
proof (induction ss)
  case Nil
  show ?case by simp
next
  case (Cons s ss)
  show ?case
  proof
    assume "glob_matches (''**'' # ps) (s # ss)"
    then consider "glob_matches ps ss" | "glob_matches (''**'' # ps) ss" by auto
    then show "\<exists>ss1 ss2. s # ss = ss1 @ ss2 \<and> ss1 \<noteq> [] \<and> glob_matches ps ss2"
    proof cases
      case 1
      then have "s # ss = [s] @ ss \<and> [s] \<noteq> [] \<and> glob_matches ps ss" by simp
      then show ?thesis by blast
    next
      case 2
      with Cons obtain ss1 ss2 where "ss = ss1 @ ss2" "ss1 \<noteq> []" "glob_matches ps ss2" by blast
      then have "s # ss = (s # ss1) @ ss2 \<and> s # ss1 \<noteq> [] \<and> glob_matches ps ss2" by simp
      then show ?thesis by blast
    qed
  next
    assume "\<exists>ss1 ss2. s # ss = ss1 @ ss2 \<and> ss1 \<noteq> [] \<and> glob_matches ps ss2"
    then obtain ss1 ss2 where c: "s # ss = ss1 @ ss2" "ss1 \<noteq> []" "glob_matches ps ss2" by blast
    then obtain as where as: "ss1 = s # as" "ss = as @ ss2" by (cases ss1) auto
    show "glob_matches (''**'' # ps) (s # ss)"
    proof (cases as)
      case Nil
      with as c show ?thesis by simp
    next
      case (Cons a as')
      with as c have "\<exists>ss1 ss2. ss = ss1 @ ss2 \<and> ss1 \<noteq> [] \<and> glob_matches ps ss2" by blast
      with Cons.IH show ?thesis by simp
    qed
  qed
qed

lemma glob_cut:
  "glob_matches (p # ps) ss \<longleftrightarrow>
     (\<exists>ss1 ss2. ss = ss1 @ ss2 \<and> seg_item p ss1 \<and> glob_matches ps ss2)"
proof (cases "p = ''**''")
  case True
  then show ?thesis by (simp add: glob_star2 seg_item_def)
next
  case False
  show ?thesis
  proof (cases ss)
    case Nil
    with False show ?thesis by (auto simp: seg_item_def)
  next
    case (Cons s ss')
    have one: "\<And>xs :: string list. length xs = 1 \<longleftrightarrow> (\<exists>x. xs = [x])"
      by (metis One_nat_def length_0_conv length_Suc_conv)
    show ?thesis
    proof (cases "p = ''*''")
      case True
      show ?thesis
      proof
        assume "glob_matches (p # ps) ss"
        with True Cons have "ss = [s] @ ss' \<and> seg_item p [s] \<and> glob_matches ps ss'"
          by (simp add: seg_item_def)
        then show "\<exists>ss1 ss2. ss = ss1 @ ss2 \<and> seg_item p ss1 \<and> glob_matches ps ss2" by blast
      next
        assume "\<exists>ss1 ss2. ss = ss1 @ ss2 \<and> seg_item p ss1 \<and> glob_matches ps ss2"
        then obtain ss1 ss2 where c: "ss = ss1 @ ss2" "seg_item p ss1" "glob_matches ps ss2"
          by blast
        from c(2) True have l: "length ss1 = 1" "hd ss1 \<noteq> []" "CHR ''.'' \<notin> set (hd ss1)"
          by (simp_all add: seg_item_def)
        from l(1) obtain x where "ss1 = [x]" using one by blast
        with l have x: "ss1 = [x]" "x \<noteq> []" "CHR ''.'' \<notin> set x" by simp_all
        with c Cons have "x = s" "ss2 = ss'" by simp_all
        with x c True Cons show "glob_matches (p # ps) ss" by simp
      qed
    next
      case star: False
      with False Cons show ?thesis
        by (auto simp: seg_item_def Cons_eq_append_conv)
    qed
  qed
qed

lemma item_seg:
  assumes ne: "ss \<noteq> []" and wf: "\<forall>seg \<in> set ss. wellFormedSegment seg \<and> CHR ''.'' \<notin> set seg"
    and p: "CHR ''.'' \<notin> set p"
  shows "rx_item (part_rx p) (join_dot ss) \<longleftrightarrow> seg_item p ss"
proof -
  from ne obtain s ss' where ss: "ss = s # ss'" by (cases ss) auto
  have dots: "\<forall>seg \<in> set ss. CHR ''.'' \<notin> set seg" using wf by simp
  have hd: "hd ss \<noteq> []" using wf ss by (simp add: wellFormedSegment_def)
  have nonempty: "join_dot ss \<noteq> []" using join_nonempty [OF ne hd] .
  have nt: "list_all (\<lambda>c. \<not> line_terminator c) (join_dot ss)"
    using wf by (intro join_no_terminator) (simp add: wellFormedSegment_def)
  have df: "list_all (\<lambda>c. c \<noteq> CHR ''.'') (join_dot ss) \<longleftrightarrow> length ss = 1"
    using join_dotfree [OF ne dots] by (auto simp: list_all_iff)
  show ?thesis
  proof (cases "p = ''**''")
    case True
    then show ?thesis using nonempty nt ne by (simp add: part_rx_def seg_item_def)
  next
    case False
    show ?thesis
    proof (cases "p = ''*''")
      case True
      then show ?thesis using nonempty df hd dots ss
        by (auto simp: part_rx_def seg_item_def)
    next
      case star: False
      have "join_dot ss = p \<longleftrightarrow> ss = [p]"
      proof
        assume j: "join_dot ss = p"
        then have "CHR ''.'' \<notin> set (join_dot ss)" using p by simp
        then have "length ss = 1" using join_dotfree [OF ne dots] by simp
        then have "ss' = []" using ss by simp
        with ss j show "ss = [p]" by simp
      next
        assume "ss = [p]"
        then show "join_dot ss = p" by simp
      qed
      then show ?thesis using False star by (simp add: part_rx_def seg_item_def)
    qed
  qed
qed

lemma seg_item_nonempty: "seg_item p ss \<Longrightarrow> ss \<noteq> []"
  by (auto simp: seg_item_def split: if_splits)

lemma regex_is_glob:
  assumes "ps \<noteq> []" and "\<forall>p \<in> set ps. CHR ''.'' \<notin> set p"
    and "ss \<noteq> []" and "\<forall>seg \<in> set ss. wellFormedSegment seg \<and> CHR ''.'' \<notin> set seg"
  shows "rx_test (join_rx (map part_rx ps)) (join_dot ss) \<longleftrightarrow> glob_matches ps ss"
  using assms
proof (induction ps arbitrary: ss)
  case Nil
  then show ?case by simp
next
  case (Cons p ps)
  have p: "CHR ''.'' \<notin> set p" using Cons.prems by simp
  have dots: "\<forall>seg \<in> set ss. CHR ''.'' \<notin> set seg" using Cons.prems by simp
  show ?case
  proof (cases ps)
    case Nil
    have "glob_matches [p] ss \<longleftrightarrow> seg_item p ss"
      unfolding glob_cut [of p "[]" ss]
      by (metis append_Nil2 glob_matches.simps(1) glob_matches.simps(2) list.exhaust)
    then show ?thesis
      using Nil item_seg [OF Cons.prems(3) Cons.prems(4) p] by (simp add: rx_test_single)
  next
    case (Cons q ps')
    have IH: "\<And>ss2. ss2 \<noteq> [] \<Longrightarrow> \<forall>seg \<in> set ss2. wellFormedSegment seg \<and> CHR ''.'' \<notin> set seg \<Longrightarrow>
        rx_test (join_rx (map part_rx ps)) (join_dot ss2) \<longleftrightarrow> glob_matches ps ss2"
      using Cons.IH Cons Cons.prems(2) by simp
    have "rx_test (join_rx (map part_rx (p # ps))) (join_dot ss) \<longleftrightarrow>
        (\<exists>u w. join_dot ss = u @ CHR ''.'' # w \<and> rx_item (part_rx p) u
           \<and> rx_test (join_rx (map part_rx ps)) w)"
      using Cons by (simp add: rx_test_sep)
    also have "\<dots> \<longleftrightarrow>
        (\<exists>ss1 ss2. ss = ss1 @ ss2 \<and> ss1 \<noteq> [] \<and> ss2 \<noteq> [] \<and> rx_item (part_rx p) (join_dot ss1)
           \<and> rx_test (join_rx (map part_rx ps)) (join_dot ss2))"
      unfolding join_cut [OF dots] by blast
    also have "\<dots> \<longleftrightarrow>
        (\<exists>ss1 ss2. ss = ss1 @ ss2 \<and> ss1 \<noteq> [] \<and> ss2 \<noteq> [] \<and> seg_item p ss1 \<and> glob_matches ps ss2)"
    proof -
      have "\<And>ss1 ss2. ss = ss1 @ ss2 \<Longrightarrow> ss1 \<noteq> [] \<Longrightarrow> ss2 \<noteq> [] \<Longrightarrow>
          (rx_item (part_rx p) (join_dot ss1) \<and> rx_test (join_rx (map part_rx ps)) (join_dot ss2))
          \<longleftrightarrow> (seg_item p ss1 \<and> glob_matches ps ss2)"
      proof -
        fix ss1 ss2 assume c: "ss = ss1 @ ss2" "ss1 \<noteq> []" "ss2 \<noteq> []"
        have w1: "\<forall>seg \<in> set ss1. wellFormedSegment seg \<and> CHR ''.'' \<notin> set seg"
          and w2: "\<forall>seg \<in> set ss2. wellFormedSegment seg \<and> CHR ''.'' \<notin> set seg"
          using Cons.prems(4) c(1) by auto
        show "(rx_item (part_rx p) (join_dot ss1) \<and> rx_test (join_rx (map part_rx ps)) (join_dot ss2))
          \<longleftrightarrow> (seg_item p ss1 \<and> glob_matches ps ss2)"
          using item_seg [OF c(2) w1 p] IH [OF c(3) w2] by simp
      qed
      then show ?thesis by blast
    qed
    also have "\<dots> \<longleftrightarrow> (\<exists>ss1 ss2. ss = ss1 @ ss2 \<and> seg_item p ss1 \<and> glob_matches ps ss2)"
      using seg_item_nonempty Cons by (metis glob_matches.simps(3))
    also have "\<dots> \<longleftrightarrow> glob_matches (p # ps) ss" by (simp add: glob_cut)
    finally show ?thesis .
  qed
qed

lemma matchPattern_is_glob:
  assumes "wellFormedPath methodPath"
  shows "isMatch (matchPattern methodPath pattern) =
           glob_matches (split_on CHR ''.'' pattern) (split_on CHR ''.'' methodPath)"
proof -
  let ?ps = "split_on CHR ''.'' pattern" and ?ss = "split_on CHR ''.'' methodPath"
  have wf: "\<forall>seg \<in> set ?ss. wellFormedSegment seg \<and> CHR ''.'' \<notin> set seg"
    using assms split_on_free [of _ "CHR ''.''" methodPath]
    by (auto simp: wellFormedPath_def list_all_iff)
  have ps: "\<forall>p \<in> set ?ps. CHR ''.'' \<notin> set p"
    using split_on_free [of _ "CHR ''.''" pattern] by blast
  have "isMatch (matchPattern methodPath pattern) =
          rx_test (join_rx (map part_rx ?ps)) (join_dot ?ss)"
    by (simp add: matchPattern_def patternToRegex_def join_split)
  also have "\<dots> = glob_matches ?ps ?ss"
    using regex_is_glob [OF split_on_nonempty ps split_on_nonempty wf] .
  finally show ?thesis .
qed

text \<open>
  Claim C5, as amended. For every method path whose dot-separated segments are all
  non-empty and free of line terminators, and for every pattern, the pattern matches the
  path exactly when its segments match the path's segments in order and to the end: a
  literal segment matches only that exact segment, \<open>*\<close> matches exactly one segment
  (non-empty, without a dot), \<open>**\<close> matches one or more consecutive segments. In
  particular \<open>files.*\<close> matches \<open>files.create\<close> and \<open>files.delete\<close> but not
  \<open>chat.completions.create\<close>, and \<open>**.create\<close> matches \<open>chat.completions.create\<close>,
  \<open>embeddings.create\<close> and \<open>files.create\<close> but not \<open>files.delete\<close>.
\<close>

theorem glob_pattern_semantics:
  "(wellFormedPath methodPath \<longrightarrow>
      isMatch (matchPattern methodPath pattern) =
        glob_matches (split_on CHR ''.'' pattern) (split_on CHR ''.'' methodPath))
   \<and> isMatch (matchPattern ''files.create'' ''files.*'')
   \<and> isMatch (matchPattern ''files.delete'' ''files.*'')
   \<and> \<not> isMatch (matchPattern ''chat.completions.create'' ''files.*'')
   \<and> isMatch (matchPattern ''chat.completions.create'' ''**.create'')
   \<and> isMatch (matchPattern ''embeddings.create'' ''**.create'')
   \<and> isMatch (matchPattern ''files.create'' ''**.create'')
   \<and> \<not> isMatch (matchPattern ''files.delete'' ''**.create'')"
proof -
  have ex: "isMatch (matchPattern ''files.create'' ''files.*'')
      \<and> isMatch (matchPattern ''files.delete'' ''files.*'')
      \<and> \<not> isMatch (matchPattern ''chat.completions.create'' ''files.*'')
      \<and> isMatch (matchPattern ''chat.completions.create'' ''**.create'')
      \<and> isMatch (matchPattern ''embeddings.create'' ''**.create'')
      \<and> isMatch (matchPattern ''files.create'' ''**.create'')
      \<and> \<not> isMatch (matchPattern ''files.delete'' ''**.create'')"
    by (simp add: matchPattern_def patternToRegex_def part_rx_def line_terminator_def)
  with matchPattern_is_glob show ?thesis by blast
qed

text \<open>
  The claim as stated, for every path, fails on a segment that contains a line
  terminator and on an empty segment: \<open>**\<close> is compiled to \<open>.+\<close>, which takes no line
  terminator and needs at least one character, so \<open>**.create\<close> matches neither the path
  with the segments \<open>a<newline>b\<close>, \<open>create\<close> nor the path \<open>.create\<close>, although in
  both one segment precedes \<open>create\<close>.
\<close>

theorem glob_misses_odd_segments:
  "\<not> isMatch (matchPattern ''a\<newline>b.create'' ''**.create'')
   \<and> glob_matches (split_on CHR ''.'' ''**.create'') (split_on CHR ''.'' ''a\<newline>b.create'')
   \<and> \<not> isMatch (matchPattern ''.create'' ''**.create'')
   \<and> glob_matches (split_on CHR ''.'' ''**.create'') (split_on CHR ''.'' ''.create'')"
  by (simp add: matchPattern_def patternToRegex_def part_rx_def line_terminator_def)

theorem glob_pattern_semantics_witness:
  "wellFormedPath ''a.b.create''
   \<and> glob_matches (split_on CHR ''.'' ''**.create'') (split_on CHR ''.'' ''a.b.create'')
   \<and> isMatch (matchPattern ''a.b.create'' ''**.create'')
   \<and> wellFormedPath ''a.b.create.d''
   \<and> \<not> glob_matches (split_on CHR ''.'' ''**.create'') (split_on CHR ''.'' ''a.b.create.d'')
   \<and> \<not> isMatch (matchPattern ''a.b.create.d'' ''**.create'')"
proof -
  have w: "wellFormedPath ''a.b.create''" "wellFormedPath ''a.b.create.d''"
    by (simp_all add: wellFormedPath_def wellFormedSegment_def line_terminator_def)
  have g: "glob_matches (split_on CHR ''.'' ''**.create'') (split_on CHR ''.'' ''a.b.create'')"
    "\<not> glob_matches (split_on CHR ''.'' ''**.create'') (split_on CHR ''.'' ''a.b.create.d'')"
    by simp_all
  from w g glob_pattern_semantics [of "''a.b.create''" "''**.create''"]
    glob_pattern_semantics [of "''a.b.create.d''" "''**.create''"]
  show ?thesis by blast
qed

section \<open>Inert statistics and the error event\<close>

lemma inert_emit: "inert sh \<Longrightarrow> eventName ev \<noteq> Error \<Longrightarrow> inert (emitEvent sh ev)"
  by (auto simp: inert_def emitEvent_def list_all_iff)

lemma inert_fields [simp]:
  "inert (sh\<lparr>rateLimiter := r\<rparr>) = inert sh"
  "inert (sh\<lparr>queueState := q\<rparr>) = inert sh"
  "inert (sh\<lparr>inflight := t\<rparr>) = inert sh"
  "inert (sh\<lparr>listeners := l\<rparr>) = inert sh"
  by (simp_all add: inert_def)

lemma inert_acquire: "inert sh \<Longrightarrow> inert (snd (acquireStep sh p now))"
  by (auto simp: acquireStep_def Let_def inert_emit split: option.splits prod.splits)

lemma inert_begin: "inert sh \<Longrightarrow> inert (beginExecute sh c r now)"
  using inert_acquire [of "emitEvent sh (ExecutingEvent (c_methodPath c)
      (case queueState sh of Some q \<Rightarrow> getRunningCount q | None \<Rightarrow> 1))" "c_methodPath c" now]
  by (auto simp: beginExecute_def Let_def inert_emit split: prod.splits)

lemma inert_dispatch: "inert sh \<Longrightarrow> inert (dispatch sh st now)"
  by (simp add: dispatch_def inert_begin split: option.splits)

lemma inert_call: "inert sh \<Longrightarrow> inert (snd (executeWithHooks sh v fn args p now))"
  by (auto simp: executeWithHooks_def Let_def inert_begin inert_dispatch inert_emit
      split: option.splits prod.splits sum.splits)

lemma inert_retry: "inert sh \<Longrightarrow> retryAcquire sh i now = Some sh' \<Longrightarrow> inert sh'"
  using inert_acquire [of sh "c_methodPath (t_call (inflight sh ! i))" now]
  by (auto simp: retryAcquire_def Let_def split: if_splits prod.splits)

lemma inert_update: "inert sh \<Longrightarrow> inert (updateStats sh l)"
  by (simp add: inert_def updateStats_def Let_def)

lemma inert_completion: "inert sh \<Longrightarrow> inert (emitCompletion sh p s now)"
  by (auto simp: emitCompletion_def Let_def inert_update inert_emit split: option.splits)

lemma inert_settle: "inert sh \<Longrightarrow> inert (settleRequest sh now)"
  by (auto simp: settleRequest_def inert_dispatch split: option.splits prod.splits)

lemma inert_finish: "inert sh \<Longrightarrow> finish sh i now = Some (sh', res) \<Longrightarrow> inert sh'"
  by (auto simp: finish_def Let_def inert_completion inert_settle
      split: if_splits prod.splits option.splits)

lemma inert_timeout: "inert sh \<Longrightarrow> timeoutFires sh i now = Some (sh', res) \<Longrightarrow> inert sh'"
  by (auto simp: timeoutFires_def Let_def inert_settle split: if_splits option.splits)

lemma inert_controls:
  "inert sh \<Longrightarrow> inert (queuePause sh) \<and> inert (queueResume sh now) \<and> inert (queueClear sh)
     \<and> inert (createOn sh e h) \<and> inert (createOff sh e h)"
  by (auto simp: queuePause_def queueResume_def queueClear_def createOn_def createOff_def
      inert_dispatch split: option.splits prod.splits)

lemma inert_init: "inert (fst (createInitialState cfg))"
  by (simp add: inert_def createInitialState_def)

lemma reachable_inert: "reachable cfg sh \<Longrightarrow> inert sh"
proof (induction rule: reachable.induct)
  case r_init
  show ?case by (rule inert_init)
next
  case (r_call sh state fn args methodPath now)
  then show ?case by (simp add: inert_call)
next
  case (r_retry sh i now sh')
  then show ?case by (blast intro: inert_retry)
next
  case (r_finish sh i now sh' res)
  then show ?case by (blast intro: inert_finish)
next
  case (r_timeout sh i now sh' res')
  then show ?case by (blast intro: inert_timeout)
qed (simp_all add: inert_controls)

lemma finish_enabled:
  "i < length (inflight sh) \<Longrightarrow> t_phase (inflight sh ! i) = Admitted \<Longrightarrow>
     finish sh i now = Some (fst (the (finish sh i now)), snd (the (finish sh i now)))"
  by (simp add: finish_def Let_def split: prod.splits option.splits)

text \<open>
  Claim C10. In every reachable state of a wrapper the statistics fields \<open>errorRate\<close>
  and \<open>requestsPerMinute\<close> are 0, and no handler has ever been called with an \<open>error\<close>
  event, whatever handlers are registered for it.
\<close>

theorem stats_fields_inert:
  "reachable cfg sh \<Longrightarrow>
     errorRate (stats sh) = 0 \<and> requestsPerMinute (stats sh) = 0
     \<and> (\<forall>d \<in> set (delivered sh). eventName (snd d) \<noteq> Error)"
  using reachable_inert [of cfg sh] by (simp add: inert_def list_all_iff)

theorem stats_fields_inert_witness:
  "(let sh0 = createOn (fst (createInitialState None)) Error 7;
        sh1 = snd (executeWithHooks sh0 (snd (createInitialState None))
                 (\<lambda>a. Throws (ErrorObj ''intentional error'')) [] ''failing'' 0);
        sh2 = fst (the (finish sh1 0 5))
    in reachable None sh2 \<and> listeners sh2 Error = [7] \<and> totalRequests (stats sh2) = 1
       \<and> errorRate (stats sh2) = 0 \<and> requestsPerMinute (stats sh2) = 0
       \<and> (\<forall>d \<in> set (delivered sh2). eventName (snd d) \<noteq> Error))"
proof -
  define sh0 where "sh0 = createOn (fst (createInitialState None)) Error 7"
  define sh1 where "sh1 = snd (executeWithHooks sh0 (snd (createInitialState None))
                 (\<lambda>a. Throws (ErrorObj ''intentional error'')) [] ''failing'' 0)"
  define sh2 where "sh2 = fst (the (finish sh1 0 5))"
  have r1: "reachable None sh1"
    unfolding sh1_def sh0_def
    by (rule r_call [OF r_on [OF r_init]]) (simp add: createInitialState_def)
  have task: "0 < length (inflight sh1) \<and> t_phase (inflight sh1 ! 0) = Admitted"
    by (simp add: sh1_def sh0_def executeWithHooks_def createInitialState_def checkMethodAccess_def
        checkAccess_def allowlistOf_def blocklistOf_def beginExecute_def emitEvent_def
        acquireStep_def createOn_def Let_def)
  have r2: "reachable None sh2"
    unfolding sh2_def using r_finish [OF r1 finish_enabled [of 0 sh1 5]] task by simp
  have l: "listeners sh2 Error = [7] \<and> totalRequests (stats sh2) = 1"
    by (simp add: sh2_def sh1_def sh0_def finish_def executeWithHooks_def createInitialState_def
        checkMethodAccess_def checkAccess_def allowlistOf_def blocklistOf_def beginExecute_def
        emitEvent_def acquireStep_def createOn_def Let_def emitCompletion_def updateStats_def
        split: prod.splits)
  from stats_fields_inert [OF r2] r2 l show ?thesis
    unfolding sh0_def sh1_def sh2_def Let_def by simp
qed

end
